theory Spec2Isabelle
  imports Main "HOL-Library.Word"
begin

section \<open>Memory model\<close>

text \<open>
  The header \<^verbatim>\<open>vector.h\<close> manages raw storage by hand. A block returned by
  \<^verbatim>\<open>operator new\<close> is a list of slots; a slot either holds no object (\<open>Raw\<close>) or a
  live object of the element type. \<^verbatim>\<open>size_t\<close> is a 64-bit word, so its arithmetic
  wraps. A pointer \<^verbatim>\<open>T*\<close> is a block address (or null) with an element offset.

  The element type \<^verbatim>\<open>T\<close> is a parameter: its two traits tested by
  \<^verbatim>\<open>if constexpr\<close>, the state a move leaves in its source, and the value of
  \<^verbatim>\<open>T()\<close>. Every constructor call of \<^verbatim>\<open>T\<close> is recorded in a log, as a test type
  counting its copies and moves would. The only constructor that can throw in the model is
  the one building a new element from caller arguments; copies, moves and assignments of
  elements already stored, value-initialisation and \<^verbatim>\<open>operator new\<close> succeed, and
  \<^verbatim>\<open>n * sizeof(T)\<close> is not computed.
\<close>

type_synonym size_t = "64 word"
type_synonym addr = nat

datatype 'a slot = Raw | Obj 'a

datatype 'a event =
    Constructed 'a
  | ValueConstructed 'a
  | CopyConstructed 'a
  | MoveConstructed 'a

record 'a memory =
  blocks :: "addr \<rightharpoonup> 'a slot list"
  brk :: addr
  ctor_log :: "'a event list"

datatype ptr = Ptr (base: "addr option") (off: nat)

definition nullptr :: ptr where
  "nullptr = Ptr None 0"

definition ptr_plus :: "ptr \<Rightarrow> nat \<Rightarrow> ptr" where
  "ptr_plus p n = Ptr (base p) (off p + n)"

text \<open>A pointer before the start of its block cannot be formed.\<close>

definition ptr_minus :: "ptr \<Rightarrow> nat \<Rightarrow> ptr option" where
  "ptr_minus p n = (if n \<le> off p then Some (Ptr (base p) (off p - n)) else None)"

text \<open>\<^verbatim>\<open>last - first\<close> for two pointers into one block.\<close>

definition ptr_diff :: "ptr \<Rightarrow> ptr \<Rightarrow> nat option" where
  "ptr_diff lst first =
     (if base lst = base first \<and> off first \<le> off lst then Some (off lst - off first) else None)"

datatype fault = Undefined_Behaviour | Assertion_Failed

record 'a element_type =
  is_nothrow_move_constructible :: bool
  is_copy_constructible :: bool
  moved_from :: "'a \<Rightarrow> 'a"
  value_init :: 'a

text \<open>The outcome of \<^verbatim>\<open>T(std::forward<Args>(args)...)\<close>.\<close>

datatype 'a ctor_args = Throwing | Value 'a

definition andthen :: "fault + 'x \<Rightarrow> ('x \<Rightarrow> fault + 'y) \<Rightarrow> fault + 'y" where
  "andthen r f = (case r of Inl e \<Rightarrow> Inl e | Inr x \<Rightarrow> f x)"

definition load :: "'a memory \<Rightarrow> ptr \<Rightarrow> fault + 'a slot" where
  "load m p =
     (case base p of
        None \<Rightarrow> Inl Undefined_Behaviour
      | Some a \<Rightarrow>
          (case blocks m a of
             None \<Rightarrow> Inl Undefined_Behaviour
           | Some blk \<Rightarrow> if off p < length blk then Inr (blk ! off p) else Inl Undefined_Behaviour))"

definition store :: "'a memory \<Rightarrow> ptr \<Rightarrow> 'a slot \<Rightarrow> fault + 'a memory" where
  "store m p s =
     (case base p of
        None \<Rightarrow> Inl Undefined_Behaviour
      | Some a \<Rightarrow>
          (case blocks m a of
             None \<Rightarrow> Inl Undefined_Behaviour
           | Some blk \<Rightarrow>
               if off p < length blk
               then Inr (m\<lparr>blocks := (blocks m)(a \<mapsto> blk[off p := s])\<rparr>)
               else Inl Undefined_Behaviour))"

definition record_event :: "'a event \<Rightarrow> 'a memory \<Rightarrow> fault + 'a memory" where
  "record_event e m = Inr (m\<lparr>ctor_log := ctor_log m @ [e]\<rparr>)"

text \<open>Reading, destroying or assigning to a slot that holds no object is undefined.\<close>

definition read_object :: "'a memory \<Rightarrow> ptr \<Rightarrow> fault + 'a" where
  "read_object m p =
     andthen (load m p) (\<lambda>s. case s of Raw \<Rightarrow> Inl Undefined_Behaviour | Obj x \<Rightarrow> Inr x)"

definition construct_at :: "'a memory \<Rightarrow> ptr \<Rightarrow> 'a \<Rightarrow> fault + 'a memory" where
  "construct_at m p x = store m p (Obj x)"

definition destroy_at :: "'a memory \<Rightarrow> ptr \<Rightarrow> fault + 'a memory" where
  "destroy_at m p = andthen (read_object m p) (\<lambda>x. store m p Raw)"

definition copy_construct :: "'a memory \<Rightarrow> ptr \<Rightarrow> ptr \<Rightarrow> fault + 'a memory" where
  "copy_construct m src dst =
     andthen (read_object m src) (\<lambda>x.
     andthen (construct_at m dst x) (record_event (CopyConstructed x)))"

definition move_construct :: "'a element_type \<Rightarrow> 'a memory \<Rightarrow> ptr \<Rightarrow> ptr \<Rightarrow> fault + 'a memory" where
  "move_construct E m src dst =
     andthen (read_object m src) (\<lambda>x.
     andthen (store m src (Obj (moved_from E x))) (\<lambda>m1.
     andthen (construct_at m1 dst x) (record_event (MoveConstructed x))))"

definition value_construct :: "'a element_type \<Rightarrow> 'a memory \<Rightarrow> ptr \<Rightarrow> fault + 'a memory" where
  "value_construct E m p =
     andthen (construct_at m p (value_init E)) (record_event (ValueConstructed (value_init E)))"

definition copy_assign_object :: "'a memory \<Rightarrow> ptr \<Rightarrow> ptr \<Rightarrow> fault + 'a memory" where
  "copy_assign_object m src dst =
     andthen (read_object m src) (\<lambda>x.
     andthen (read_object m dst) (\<lambda>_. store m dst (Obj x)))"

definition move_assign_object :: "'a element_type \<Rightarrow> 'a memory \<Rightarrow> ptr \<Rightarrow> ptr \<Rightarrow> fault + 'a memory" where
  "move_assign_object E m src dst =
     andthen (read_object m src) (\<lambda>x.
     andthen (read_object m dst) (\<lambda>_.
     andthen (store m src (Obj (moved_from E x))) (\<lambda>m1. store m1 dst (Obj x))))"

subsection \<open>The standard algorithms used by the header\<close>

fun uninitialized_copy_n :: "'a memory \<Rightarrow> ptr \<Rightarrow> nat \<Rightarrow> ptr \<Rightarrow> fault + 'a memory" where
  "uninitialized_copy_n m first 0 d_first = Inr m"
| "uninitialized_copy_n m first (Suc n) d_first =
     andthen (copy_construct m first d_first) (\<lambda>m'.
       uninitialized_copy_n m' (ptr_plus first 1) n (ptr_plus d_first 1))"

fun uninitialized_move_n ::
  "'a element_type \<Rightarrow> 'a memory \<Rightarrow> ptr \<Rightarrow> nat \<Rightarrow> ptr \<Rightarrow> fault + 'a memory" where
  "uninitialized_move_n E m first 0 d_first = Inr m"
| "uninitialized_move_n E m first (Suc n) d_first =
     andthen (move_construct E m first d_first) (\<lambda>m'.
       uninitialized_move_n E m' (ptr_plus first 1) n (ptr_plus d_first 1))"

fun uninitialized_value_construct_n ::
  "'a element_type \<Rightarrow> 'a memory \<Rightarrow> ptr \<Rightarrow> nat \<Rightarrow> fault + 'a memory" where
  "uninitialized_value_construct_n E m first 0 = Inr m"
| "uninitialized_value_construct_n E m first (Suc n) =
     andthen (value_construct E m first) (\<lambda>m'.
       uninitialized_value_construct_n E m' (ptr_plus first 1) n)"

fun destroy_n :: "'a memory \<Rightarrow> ptr \<Rightarrow> nat \<Rightarrow> fault + 'a memory" where
  "destroy_n m first 0 = Inr m"
| "destroy_n m first (Suc n) =
     andthen (destroy_at m first) (\<lambda>m'. destroy_n m' (ptr_plus first 1) n)"

text \<open>\<^verbatim>\<open>std::move(first, last, d_first)\<close>: move-assigns front to back.\<close>

fun move_forward :: "'a element_type \<Rightarrow> 'a memory \<Rightarrow> ptr \<Rightarrow> nat \<Rightarrow> ptr \<Rightarrow> fault + 'a memory" where
  "move_forward E m first 0 d_first = Inr m"
| "move_forward E m first (Suc n) d_first =
     andthen (move_assign_object E m first d_first) (\<lambda>m'.
       move_forward E m' (ptr_plus first 1) n (ptr_plus d_first 1))"

definition std_move :: "'a element_type \<Rightarrow> 'a memory \<Rightarrow> ptr \<Rightarrow> ptr \<Rightarrow> ptr \<Rightarrow> fault + 'a memory" where
  "std_move E m first lst d_first =
     (case ptr_diff lst first of
        None \<Rightarrow> Inl Undefined_Behaviour
      | Some n \<Rightarrow> move_forward E m first n d_first)"

text \<open>\<^verbatim>\<open>std::move_backward(first, last, d_last)\<close>: move-assigns back to front.\<close>

fun move_backward_n ::
  "'a element_type \<Rightarrow> 'a memory \<Rightarrow> ptr \<Rightarrow> nat \<Rightarrow> ptr \<Rightarrow> fault + 'a memory" where
  "move_backward_n E m first 0 d_last = Inr m"
| "move_backward_n E m first (Suc n) d_last =
     (case ptr_minus d_last 1 of
        None \<Rightarrow> Inl Undefined_Behaviour
      | Some d \<Rightarrow>
          andthen (move_assign_object E m (ptr_plus first n) d) (\<lambda>m'.
            move_backward_n E m' first n d))"

definition std_move_backward ::
  "'a element_type \<Rightarrow> 'a memory \<Rightarrow> ptr \<Rightarrow> ptr \<Rightarrow> ptr \<Rightarrow> fault + 'a memory" where
  "std_move_backward E m first lst d_last =
     (case ptr_diff lst first of
        None \<Rightarrow> Inl Undefined_Behaviour
      | Some n \<Rightarrow> move_backward_n E m first n d_last)"


section \<open>RawMemory\<close>

text \<open>The members \<^verbatim>\<open>buffer_\<close>, \<^verbatim>\<open>capacity_\<close>, \<^verbatim>\<open>data_\<close> and \<^verbatim>\<open>size_\<close> are the fields \<open>buffer_m\<close>, \<open>capacity_m\<close>, \<open>data_m\<close> and \<open>size_m\<close>.\<close>

record RawMemory =
  buffer_m :: "addr option"
  capacity_m :: size_t

datatype ('s, 'r) outcome = Return 's 'r | Throw 's | Fault fault

definition run :: "fault + 'x \<Rightarrow> ('x \<Rightarrow> ('s, 'r) outcome) \<Rightarrow> ('s, 'r) outcome" where
  "run r f = (case r of Inl e \<Rightarrow> Fault e | Inr x \<Rightarrow> f x)"

text \<open>
  \<^verbatim>\<open>Allocate\<close> (line 79) passes \<^verbatim>\<open>n * sizeof(T)\<close> to \<^verbatim>\<open>operator new\<close>. The model
  has no byte counts: a block is a list of slots, and every request is served with room
  for \<open>n\<close> objects. That is what the code does when the product does not wrap in
  \<^verbatim>\<open>size_t\<close> and \<^verbatim>\<open>operator new\<close> does not throw \<^verbatim>\<open>std::bad_alloc\<close>; a run in which
  it wraps or throws is outside the model. No object has more than \<open>2\<^sup>6\<^sup>3 - 1\<close> bytes, so
  the product does not wrap when \<open>n\<close> is at most twice the capacity of a block that
  exists. Such are the counts a vector asks for by itself (1, or twice its capacity when it
  is full), and the theorems on \<^verbatim>\<open>Reserve\<close> with a count chosen by the caller are stated
  for such counts.
\<close>

definition Allocate :: "'a memory \<Rightarrow> size_t \<Rightarrow> 'a memory \<times> addr option" where
  "Allocate m n =
     (if n \<noteq> 0
      then (m\<lparr>blocks := (blocks m)(brk m \<mapsto> replicate (unat n) Raw), brk := Suc (brk m)\<rparr>,
            Some (brk m))
      else (m, None))"

definition Deallocate :: "'a memory \<Rightarrow> addr option \<Rightarrow> fault + 'a memory" where
  "Deallocate m buf =
     (case buf of
        None \<Rightarrow> Inr m
      | Some a \<Rightarrow>
          (case blocks m a of
             None \<Rightarrow> Inl Undefined_Behaviour
           | Some blk \<Rightarrow> Inr (m\<lparr>blocks := (blocks m)(a := None)\<rparr>)))"

definition RawMemory_default :: RawMemory where
  "RawMemory_default = \<lparr>buffer_m = None, capacity_m = 0\<rparr>"

definition RawMemory_ctor :: "'a memory \<Rightarrow> size_t \<Rightarrow> 'a memory \<times> RawMemory" where
  "RawMemory_ctor m capacity =
     (case Allocate m capacity of (m', buf) \<Rightarrow> (m', \<lparr>buffer_m = buf, capacity_m = capacity\<rparr>))"

definition RawMemory_dtor :: "'a memory \<Rightarrow> RawMemory \<Rightarrow> fault + 'a memory" where
  "RawMemory_dtor m this = Deallocate m (buffer_m this)"

text \<open>The move constructor gives the new object and the emptied source.\<close>

definition RawMemory_move_ctor :: "RawMemory \<Rightarrow> RawMemory \<times> RawMemory" where
  "RawMemory_move_ctor other =
     (\<lparr>buffer_m = buffer_m other, capacity_m = capacity_m other\<rparr>,
      other\<lparr>buffer_m := None, capacity_m := 0\<rparr>)"

text \<open>
  Line 33 of \<^verbatim>\<open>operator=(RawMemory&&)\<close>, \<^verbatim>\<open>~RawMemory();\<close>, is an expression
  statement: the operator \<^verbatim>\<open>~\<close> applied to the temporary \<^verbatim>\<open>RawMemory()\<close>. A destructor
  call names its object, as \<^verbatim>\<open>this->~RawMemory()\<close> does. The operand has class type, so
  the expression is well formed only when an \<^verbatim>\<open>operator~\<close> accepts it or a conversion
  function turns it into an integer. The header declares no function outside its two
  classes; the members of \<^verbatim>\<open>RawMemory\<close> are listed with their lines.
\<close>

datatype member_kind =
    Constructor | Destructor | Assignment_operator | Addition_operator | Subscript_operator
  | Complement_operator | Conversion_function | Named_function

definition RawMemory_members :: "(nat \<times> member_kind) list" where
  "RawMemory_members =
     [(12, Constructor), (14, Constructor), (19, Destructor), (23, Constructor),
      (24, Assignment_operator), (25, Constructor), (29, Assignment_operator),
      (40, Addition_operator), (46, Addition_operator), (50, Subscript_operator),
      (54, Subscript_operator), (59, Named_function), (64, Named_function),
      (68, Named_function), (72, Named_function), (78, Named_function),
      (83, Named_function)]"

text \<open>
  A member function of a class template is instantiated where a program uses it. The
  instantiation is a function to call, or the program is ill formed at a line of the
  body. All other statements of \<^verbatim>\<open>operator=(RawMemory&&)\<close> are well formed.
\<close>

datatype instantiated = Callable | Ill_formed nat

definition RawMemory_move_assign :: instantiated where
  "RawMemory_move_assign =
     (if Complement_operator \<in> snd ` set RawMemory_members \<or>
         Conversion_function \<in> snd ` set RawMemory_members
      then Callable else Ill_formed 33)"

definition RawMemory_plus :: "RawMemory \<Rightarrow> size_t \<Rightarrow> fault + ptr" where
  "RawMemory_plus this offset =
     (if offset \<le> capacity_m this then Inr (Ptr (buffer_m this) (unat offset))
      else Inl Assertion_Failed)"

definition RawMemory_index :: "RawMemory \<Rightarrow> size_t \<Rightarrow> fault + ptr" where
  "RawMemory_index this index =
     (if index < capacity_m this then Inr (Ptr (buffer_m this) (unat index))
      else Inl Assertion_Failed)"

definition RawMemory_Swap :: "RawMemory \<Rightarrow> RawMemory \<Rightarrow> RawMemory \<times> RawMemory" where
  "RawMemory_Swap this other =
     (\<lparr>buffer_m = buffer_m other, capacity_m = capacity_m other\<rparr>,
      \<lparr>buffer_m = buffer_m this, capacity_m = capacity_m this\<rparr>)"

definition RawMemory_GetAddress :: "RawMemory \<Rightarrow> ptr" where
  "RawMemory_GetAddress this = Ptr (buffer_m this) 0"

definition RawMemory_Capacity :: "RawMemory \<Rightarrow> size_t" where
  "RawMemory_Capacity this = capacity_m this"

section \<open>Vector\<close>

record Vector =
  data_m :: RawMemory
  size_m :: size_t

datatype retval = Void | Reference ptr

definition Vector_begin :: "Vector \<Rightarrow> ptr" where
  "Vector_begin this = RawMemory_GetAddress (data_m this)"

definition Vector_end :: "Vector \<Rightarrow> fault + ptr" where
  "Vector_end this = RawMemory_plus (data_m this) (size_m this)"

definition Vector_ctor :: Vector where
  "Vector_ctor = \<lparr>data_m = RawMemory_default, size_m = 0\<rparr>"

definition Vector_ctor_n ::
  "'a element_type \<Rightarrow> 'a memory \<Rightarrow> size_t \<Rightarrow> fault + ('a memory \<times> Vector)" where
  "Vector_ctor_n E m sz =
     (case RawMemory_ctor m sz of (m1, d) \<Rightarrow>
        andthen (uninitialized_value_construct_n E m1 (RawMemory_GetAddress d) (unat sz))
          (\<lambda>m2. Inr (m2, \<lparr>data_m = d, size_m = sz\<rparr>)))"

definition Vector_copy_ctor :: "'a memory \<Rightarrow> Vector \<Rightarrow> fault + ('a memory \<times> Vector)" where
  "Vector_copy_ctor m other =
     (case RawMemory_ctor m (size_m other) of (m1, d) \<Rightarrow>
        andthen (uninitialized_copy_n m1 (RawMemory_GetAddress (data_m other))
                   (unat (size_m other)) (RawMemory_GetAddress d))
          (\<lambda>m2. Inr (m2, \<lparr>data_m = d, size_m = size_m other\<rparr>)))"

definition Vector_move_ctor :: "Vector \<Rightarrow> Vector \<times> Vector" where
  "Vector_move_ctor other =
     (case RawMemory_move_ctor (data_m other) of (d, od) \<Rightarrow>
        (\<lparr>data_m = d, size_m = size_m other\<rparr>, \<lparr>data_m = od, size_m = 0\<rparr>))"

definition Vector_dtor :: "'a memory \<Rightarrow> Vector \<Rightarrow> fault + 'a memory" where
  "Vector_dtor m this =
     andthen (destroy_n m (RawMemory_GetAddress (data_m this)) (unat (size_m this)))
       (\<lambda>m1. RawMemory_dtor m1 (data_m this))"

definition Vector_Swap :: "Vector \<Rightarrow> Vector \<Rightarrow> Vector \<times> Vector" where
  "Vector_Swap this other =
     (case RawMemory_Swap (data_m this) (data_m other) of (d, od) \<Rightarrow>
        (\<lparr>data_m = d, size_m = size_m other\<rparr>, \<lparr>data_m = od, size_m = size_m this\<rparr>))"

definition Size :: "Vector \<Rightarrow> size_t" where
  "Size this = size_m this"

definition Capacity :: "Vector \<Rightarrow> size_t" where
  "Capacity this = RawMemory_Capacity (data_m this)"

definition Vector_index :: "Vector \<Rightarrow> size_t \<Rightarrow> fault + ptr" where
  "Vector_index this index =
     (if index < size_m this then RawMemory_index (data_m this) index else Inl Assertion_Failed)"

definition Reserve ::
  "'a element_type \<Rightarrow> 'a memory \<Rightarrow> Vector \<Rightarrow> size_t \<Rightarrow> fault + ('a memory \<times> Vector)" where
  "Reserve E m this new_capacity =
     (if new_capacity \<le> RawMemory_Capacity (data_m this) then Inr (m, this)
      else
        (case RawMemory_ctor m new_capacity of (m1, new_data) \<Rightarrow>
           andthen
             (if is_nothrow_move_constructible E \<or> \<not> is_copy_constructible E
              then uninitialized_move_n E m1 (RawMemory_GetAddress (data_m this))
                     (unat (size_m this)) (RawMemory_GetAddress new_data)
              else uninitialized_copy_n m1 (RawMemory_GetAddress (data_m this))
                     (unat (size_m this)) (RawMemory_GetAddress new_data)) (\<lambda>m2.
           andthen (destroy_n m2 (RawMemory_GetAddress (data_m this)) (unat (size_m this))) (\<lambda>m3.
             case RawMemory_Swap (data_m this) new_data of (d, old_data) \<Rightarrow>
               andthen (RawMemory_dtor m3 old_data) (\<lambda>m4. Inr (m4, this\<lparr>data_m := d\<rparr>))))))"

definition Resize ::
  "'a element_type \<Rightarrow> 'a memory \<Rightarrow> Vector \<Rightarrow> size_t \<Rightarrow> fault + ('a memory \<times> Vector)" where
  "Resize E m this new_size =
     (if new_size < size_m this then
        andthen (destroy_n m (ptr_plus (RawMemory_GetAddress (data_m this)) (unat new_size))
                   (unat (size_m this - new_size)))
          (\<lambda>m1. Inr (m1, this\<lparr>size_m := new_size\<rparr>))
      else if new_size > size_m this then
        andthen (Reserve E m this new_size) (\<lambda>(m1, this1).
        andthen (uninitialized_value_construct_n E m1
                   (ptr_plus (RawMemory_GetAddress (data_m this1)) (unat (size_m this1)))
                   (unat (new_size - size_m this1)))
          (\<lambda>m2. Inr (m2, this1\<lparr>size_m := new_size\<rparr>)))
      else Inr (m, this))"

definition PopBack :: "'a memory \<Rightarrow> Vector \<Rightarrow> fault + ('a memory \<times> Vector)" where
  "PopBack m this =
     (case ptr_minus (ptr_plus (RawMemory_GetAddress (data_m this)) (unat (size_m this))) 1 of
        None \<Rightarrow> Inl Undefined_Behaviour
      | Some p \<Rightarrow>
          andthen (destroy_n m p 1) (\<lambda>m1. Inr (m1, this\<lparr>size_m := size_m this - 1\<rparr>)))"

text \<open>
  In the growing branch \<^verbatim>\<open>new_vector\<close> is a local of the \<^verbatim>\<open>if\<close> block: its
  destructor runs at the end of the block, or during unwinding when the constructor of the
  new element throws.
\<close>

definition EmplaceBack ::
  "'a element_type \<Rightarrow> 'a memory \<Rightarrow> Vector \<Rightarrow> 'a ctor_args
     \<Rightarrow> ('a memory \<times> Vector, retval) outcome" where
  "EmplaceBack E m this args =
     (if size_m this = Capacity this then
        run (Reserve E m Vector_ctor (if size_m this = 0 then 1 else size_m this * 2))
          (\<lambda>(m1, new_vector0).
        let new_vector = new_vector0\<lparr>size_m := size_m this\<rparr> in
        run (RawMemory_plus (data_m new_vector) (size_m this)) (\<lambda>elem_pointer.
        case args of
          Throwing \<Rightarrow> run (Vector_dtor m1 new_vector) (\<lambda>m2. Throw (m2, this))
        | Value x \<Rightarrow>
            run (andthen (construct_at m1 elem_pointer x) (record_event (Constructed x))) (\<lambda>m2.
            run (if is_nothrow_move_constructible E \<or> \<not> is_copy_constructible E
                 then uninitialized_move_n E m2 (RawMemory_GetAddress (data_m this))
                        (unat (size_m this)) (RawMemory_GetAddress (data_m new_vector))
                 else uninitialized_copy_n m2 (RawMemory_GetAddress (data_m this))
                        (unat (size_m this)) (RawMemory_GetAddress (data_m new_vector))) (\<lambda>m3.
            case Vector_Swap this new_vector of (this1, old_vector) \<Rightarrow>
              run (Vector_dtor m3 old_vector) (\<lambda>m4.
                Return (m4, this1\<lparr>size_m := size_m this1 + 1\<rparr>) (Reference elem_pointer))))))
      else
        run (RawMemory_plus (data_m this) (size_m this)) (\<lambda>elem_pointer.
        case args of
          Throwing \<Rightarrow> Throw (m, this)
        | Value x \<Rightarrow>
            run (andthen (construct_at m elem_pointer x) (record_event (Constructed x))) (\<lambda>m1.
              Return (m1, this\<lparr>size_m := size_m this + 1\<rparr>) (Reference elem_pointer))))"

definition PushBack ::
  "'a element_type \<Rightarrow> 'a memory \<Rightarrow> Vector \<Rightarrow> 'a ctor_args
     \<Rightarrow> ('a memory \<times> Vector, retval) outcome" where
  "PushBack E m this val =
     (case EmplaceBack E m this val of
        Return s r \<Rightarrow> Return s Void
      | Throw s \<Rightarrow> Throw s
      | Fault f \<Rightarrow> Fault f)"

text \<open>
  \<^verbatim>\<open>new T(T(args...))\<close>: a block for one object; when the constructor throws the
  block is released again.
\<close>

definition new_object :: "'a memory \<Rightarrow> 'a ctor_args \<Rightarrow> 'a memory \<times> ptr option" where
  "new_object m args =
     (case args of
        Throwing \<Rightarrow> (m\<lparr>brk := Suc (brk m)\<rparr>, None)
      | Value x \<Rightarrow>
          (m\<lparr>blocks := (blocks m)(brk m \<mapsto> [Obj x]), brk := Suc (brk m),
             ctor_log := ctor_log m @ [Constructed x]\<rparr>,
           Some (Ptr (Some (brk m)) 0)))"

definition Emplace ::
  "'a element_type \<Rightarrow> 'a memory \<Rightarrow> Vector \<Rightarrow> ptr \<Rightarrow> 'a ctor_args
     \<Rightarrow> ('a memory \<times> Vector, ptr) outcome" where
  "Emplace E m this pos args =
     (case ptr_diff pos (RawMemory_GetAddress (data_m this)) of
        None \<Rightarrow> Fault Undefined_Behaviour
      | Some d \<Rightarrow>
     let index = (of_nat d :: size_t) in
     run (Vector_end this) (\<lambda>e.
     if pos = e then
       (case EmplaceBack E m this args of
          Return (m1, this1) r \<Rightarrow> Return (m1, this1) (ptr_plus (Vector_begin this1) (unat index))
        | Throw s \<Rightarrow> Throw s
        | Fault f \<Rightarrow> Fault f)
     else if size_m this = Capacity this then
       run (Reserve E m Vector_ctor (if size_m this = 0 then 1 else size_m this * 2))
         (\<lambda>(m1, new_vector0).
       let new_vector = new_vector0\<lparr>size_m := size_m this\<rparr>;
           elem_pointer = ptr_plus (Vector_begin new_vector) (unat index) in
       case args of
         Throwing \<Rightarrow> run (Vector_dtor m1 new_vector) (\<lambda>m2. Throw (m2, this))
       | Value x \<Rightarrow>
           run (andthen (construct_at m1 elem_pointer x) (record_event (Constructed x))) (\<lambda>m2.
           run (if is_nothrow_move_constructible E \<or> \<not> is_copy_constructible E
                then
                  andthen (uninitialized_move_n E m2 (Vector_begin this) (unat index)
                             (Vector_begin new_vector)) (\<lambda>m'.
                    uninitialized_move_n E m' (ptr_plus (Vector_begin this) (unat index))
                      (unat (size_m this - index))
                      (ptr_plus (ptr_plus (Vector_begin new_vector) (unat index)) 1))
                else
                  andthen (uninitialized_copy_n m2 (Vector_begin this) (unat index)
                             (Vector_begin new_vector)) (\<lambda>m'.
                    uninitialized_copy_n m' (ptr_plus (Vector_begin this) (unat index))
                      (unat (size_m this - index))
                      (ptr_plus (ptr_plus (Vector_begin new_vector) (unat index)) 1))) (\<lambda>m3.
           case Vector_Swap this new_vector of (this1, old_vector) \<Rightarrow>
             run (Vector_dtor m3 old_vector) (\<lambda>m4.
               let this2 = this1\<lparr>size_m := size_m this1 + 1\<rparr> in
               Return (m4, this2) (ptr_plus (Vector_begin this2) (unat index))))))
     else
       (case new_object m args of
          (m1, None) \<Rightarrow> Throw (m1, this)
        | (m1, Some elem_pointer) \<Rightarrow>
            (case ptr_minus e 1 of
               None \<Rightarrow> Fault Undefined_Behaviour
             | Some e1 \<Rightarrow>
                 run (move_construct E m1 e1 e) (\<lambda>m2.
                 run (std_move_backward E m2 (ptr_plus (Vector_begin this) (unat index)) e1 e)
                   (\<lambda>m3.
                 run (std_move E m3 elem_pointer (ptr_plus elem_pointer 1)
                        (ptr_plus (Vector_begin this) (unat index))) (\<lambda>m4.
                 run (destroy_n m4 elem_pointer 1) (\<lambda>m5.
                   let this1 = this\<lparr>size_m := size_m this + 1\<rparr> in
                   Return (m5, this1) (ptr_plus (Vector_begin this1) (unat index))))))))))"

definition Erase ::
  "'a element_type \<Rightarrow> 'a memory \<Rightarrow> Vector \<Rightarrow> ptr \<Rightarrow> fault + (('a memory \<times> Vector) \<times> ptr)" where
  "Erase E m this pos =
     (case ptr_diff pos (RawMemory_GetAddress (data_m this)) of
        None \<Rightarrow> Inl Undefined_Behaviour
      | Some d \<Rightarrow>
     let index = (of_nat d :: size_t) in
     andthen (Vector_end this) (\<lambda>e.
     andthen (std_move E m (ptr_plus (ptr_plus (Vector_begin this) (unat index)) 1) e
                (ptr_plus (Vector_begin this) (unat index))) (\<lambda>m1.
     andthen (PopBack m1 this) (\<lambda>(m2, this1).
       Inr ((m2, this1), ptr_plus (Vector_begin this1) (unat index))))))"

definition Insert ::
  "'a element_type \<Rightarrow> 'a memory \<Rightarrow> Vector \<Rightarrow> ptr \<Rightarrow> 'a ctor_args
     \<Rightarrow> ('a memory \<times> Vector, ptr) outcome" where
  "Insert E m this pos val = Emplace E m this pos val"


section \<open>Assignment between vector objects\<close>

text \<open>
  Both assignment operators compare \<^verbatim>\<open>this\<close> with \<^verbatim>\<open>&rhs\<close>, so they work on a
  store of vector objects addressed by reference. They return the reference \<^verbatim>\<open>*this\<close>.
\<close>

record 'a state =
  mem :: "'a memory"
  vectors :: "nat \<rightharpoonup> Vector"

text \<open>\<^verbatim>\<open>for (size_t i = 0; i != n; ++i) data_[i] = rhs.data_[i];\<close> with \<open>k\<close> rounds left.\<close>

fun assign_loop ::
  "'a memory \<Rightarrow> RawMemory \<Rightarrow> RawMemory \<Rightarrow> size_t \<Rightarrow> nat \<Rightarrow> fault + 'a memory" where
  "assign_loop m d r i 0 = Inr m"
| "assign_loop m d r i (Suc k) =
     andthen (RawMemory_index r i) (\<lambda>src.
     andthen (RawMemory_index d i) (\<lambda>dst.
     andthen (copy_assign_object m src dst) (\<lambda>m'. assign_loop m' d r (i + 1) k)))"

definition Vector_copy_assign :: "'a state \<Rightarrow> nat \<Rightarrow> nat \<Rightarrow> ('a state, nat) outcome" where
  "Vector_copy_assign st this rhs =
     (if this \<noteq> rhs then
        (case (vectors st this, vectors st rhs) of
           (Some t, Some r) \<Rightarrow>
             if size_m r > RawMemory_Capacity (data_m t) then
               run (Vector_copy_ctor (mem st) r) (\<lambda>(m1, rhs_copy).
                 case Vector_Swap t rhs_copy of (t1, old) \<Rightarrow>
                   run (Vector_dtor m1 old) (\<lambda>m2.
                     Return (st\<lparr>mem := m2, vectors := (vectors st)(this \<mapsto> t1)\<rparr>) this))
             else if size_m r < size_m t then
               run (assign_loop (mem st) (data_m t) (data_m r) 0 (unat (size_m r))) (\<lambda>m1.
               run (destroy_n m1 (ptr_plus (RawMemory_GetAddress (data_m t)) (unat (size_m r)))
                      (unat (size_m t - size_m r))) (\<lambda>m2.
                 Return (st\<lparr>mem := m2, vectors := (vectors st)(this \<mapsto> t\<lparr>size_m := size_m r\<rparr>)\<rparr>)
                   this))
             else
               run (assign_loop (mem st) (data_m t) (data_m r) 0 (unat (size_m t))) (\<lambda>m1.
               run (uninitialized_copy_n m1
                      (ptr_plus (RawMemory_GetAddress (data_m r)) (unat (size_m t)))
                      (unat (size_m r - size_m t))
                      (ptr_plus (RawMemory_GetAddress (data_m t)) (unat (size_m t)))) (\<lambda>m2.
                 Return (st\<lparr>mem := m2, vectors := (vectors st)(this \<mapsto> t\<lparr>size_m := size_m r\<rparr>)\<rparr>)
                   this))
         | _ \<Rightarrow> Fault Undefined_Behaviour)
      else Return st this)"

text \<open>
  In the second branch \<^verbatim>\<open>Swap(rhs)\<close> runs first, so the \<^verbatim>\<open>destroy_n\<close> call after
  it reads the sizes already exchanged.
\<close>

definition Vector_move_assign :: "'a state \<Rightarrow> nat \<Rightarrow> nat \<Rightarrow> ('a state, nat) outcome" where
  "Vector_move_assign st this rhs =
     (if this \<noteq> rhs then
        (case (vectors st this, vectors st rhs) of
           (Some t, Some r) \<Rightarrow>
             if size_m r > RawMemory_Capacity (data_m t) then
               (case Vector_move_ctor r of (rhs_copy, r1) \<Rightarrow>
                case Vector_Swap t rhs_copy of (t1, old) \<Rightarrow>
                  run (Vector_dtor (mem st) old) (\<lambda>m1.
                    Return (st\<lparr>mem := m1, vectors := (vectors st)(this \<mapsto> t1, rhs \<mapsto> r1)\<rparr>)
                      this))
             else if size_m r < size_m t then
               (case Vector_Swap t r of (t1, r1) \<Rightarrow>
                  run (destroy_n (mem st)
                         (ptr_plus (RawMemory_GetAddress (data_m t1)) (unat (size_m r1)))
                         (unat (size_m t1 - size_m r1))) (\<lambda>m1.
                    Return (st\<lparr>mem := m1, vectors := (vectors st)(this \<mapsto> t1, rhs \<mapsto> r1)\<rparr>)
                      this))
             else
               (case Vector_Swap t r of (t1, r1) \<Rightarrow>
                  Return (st\<lparr>vectors := (vectors st)(this \<mapsto> t1, rhs \<mapsto> r1)\<rparr>) this)
         | _ \<Rightarrow> Fault Undefined_Behaviour)
      else Return st this)"

section \<open>Well-formed vectors\<close>

text \<open>
  A block of a given capacity whose first slots hold the objects \<open>xs\<close> and whose other
  slots are uninitialised.
\<close>

definition block_of :: "'a list \<Rightarrow> nat \<Rightarrow> 'a slot list" where
  "block_of xs cap = map Obj xs @ replicate (cap - length xs) Raw"

text \<open>
  \<open>holds m v xs\<close>: in memory \<open>m\<close> the vector \<open>v\<close> is well formed and its live
  elements, in index order, are \<open>xs\<close>. The size does not exceed the capacity, the buffer
  is null exactly when the capacity is 0, and otherwise it is an allocated block of
  \<open>capacity_\<close> slots, live in \<open>[0, size_)\<close> and uninitialised from there on.
\<close>

definition holds :: "'a memory \<Rightarrow> Vector \<Rightarrow> 'a list \<Rightarrow> bool" where
  "holds m v xs =
     (length xs = unat (size_m v) \<and> size_m v \<le> capacity_m (data_m v) \<and>
      (case buffer_m (data_m v) of
         None \<Rightarrow> capacity_m (data_m v) = 0
       | Some a \<Rightarrow>
           a < brk m \<and> capacity_m (data_m v) \<noteq> 0 \<and>
           blocks m a = Some (block_of xs (unat (capacity_m (data_m v))))))"

text \<open>The constructor calls that relocating \<open>xs\<close> makes under the relocation rule.\<close>

definition relocation_log :: "'a element_type \<Rightarrow> 'a list \<Rightarrow> 'a event list" where
  "relocation_log E xs =
     (if is_nothrow_move_constructible E \<or> \<not> is_copy_constructible E
      then map MoveConstructed xs else map CopyConstructed xs)"

definition release :: "addr option \<Rightarrow> (addr \<rightharpoonup> 'a slot list) \<Rightarrow> (addr \<rightharpoonup> 'a slot list)" where
  "release buf f = (case buf of None \<Rightarrow> f | Some a \<Rightarrow> f(a := None))"

text \<open>The values relocation leaves in the old block: moved-from, or untouched by a copy.\<close>

definition residue :: "'a element_type \<Rightarrow> 'a list \<Rightarrow> 'a list" where
  "residue E xs =
     (if is_nothrow_move_constructible E \<or> \<not> is_copy_constructible E
      then map (moved_from E) xs else xs)"

text \<open>
  What shifting by one slot leaves behind. \<open>shifted_left E y ys\<close>: the slots that held
  \<open>y # ys\<close> after \<open>ys\<close> was move-assigned one slot to the left. \<open>shifted_right E ys w\<close>:
  the slots that held \<open>ys @ [w]\<close> after \<open>ys\<close> was move-assigned one slot to the right.
\<close>

definition shifted_left :: "'a element_type \<Rightarrow> 'a \<Rightarrow> 'a list \<Rightarrow> 'a list" where
  "shifted_left E y ys = (if ys = [] then [y] else ys @ [moved_from E (last ys)])"

definition shifted_right :: "'a element_type \<Rightarrow> 'a list \<Rightarrow> 'a \<Rightarrow> 'a list" where
  "shifted_right E ys w = (if ys = [] then [w] else moved_from E (hd ys) # ys)"

text \<open>
  \<open>frame buf m m'\<close>: from \<open>m\<close> to \<open>m'\<close> no block allocated in \<open>m\<close> has changed, but
  possibly the one at \<open>buf\<close>.
\<close>

definition frame :: "addr option \<Rightarrow> 'a memory \<Rightarrow> 'a memory \<Rightarrow> bool" where
  "frame buf m m' =
     (brk m \<le> brk m' \<and> (\<forall>b. b < brk m \<and> buf \<noteq> Some b \<longrightarrow> blocks m' b = blocks m b))"

section \<open>Sequences of appends and removals\<close>

datatype 'a stack_op = Push 'a | Pop

text \<open>Runs the operations on a vector; \<open>None\<close> when one of them does not return.\<close>

fun apply_ops ::
  "'a element_type \<Rightarrow> 'a stack_op list \<Rightarrow> 'a memory \<times> Vector \<Rightarrow> ('a memory \<times> Vector) option" where
  "apply_ops E [] s = Some s"
| "apply_ops E (Push x # ops) (m, v) =
     (case PushBack E m v (Value x) of
        Return s' r \<Rightarrow> apply_ops E ops s'
      | Throw s' \<Rightarrow> None
      | Fault f \<Rightarrow> None)"
| "apply_ops E (Pop # ops) (m, v) =
     (case PopBack m v of
        Inl f \<Rightarrow> None
      | Inr s' \<Rightarrow> apply_ops E ops s')"

text \<open>\<open>PopBack\<close> is applied only to a vector of positive size; \<open>n\<close> is the size so far.\<close>

fun pops_allowed :: "nat \<Rightarrow> 'a stack_op list \<Rightarrow> bool" where
  "pops_allowed n [] = True"
| "pops_allowed n (Push x # ops) = pops_allowed (Suc n) ops"
| "pops_allowed n (Pop # ops) = (0 < n \<and> pops_allowed (n - 1) ops)"

text \<open>The pushed values not popped yet, oldest first, after the operations on \<open>xs\<close>.\<close>

fun survivors :: "'a list \<Rightarrow> 'a stack_op list \<Rightarrow> 'a list" where
  "survivors xs [] = xs"
| "survivors xs (Push x # ops) = survivors (xs @ [x]) ops"
| "survivors xs (Pop # ops) = survivors (butlast xs) ops"

fun pushes :: "'a stack_op list \<Rightarrow> nat" where
  "pushes [] = 0"
| "pushes (Push x # ops) = Suc (pushes ops)"
| "pushes (Pop # ops) = pushes ops"

fun pops :: "'a stack_op list \<Rightarrow> nat" where
  "pops [] = 0"
| "pops (Push x # ops) = pops ops"
| "pops (Pop # ops) = Suc (pops ops)"

section \<open>Programs over the public interface\<close>

text \<open>
  A program is a list of calls on vector objects named by references. A constructor call
  names the object it creates; positions are given as offsets from \<^verbatim>\<open>begin()\<close>.
\<close>

datatype 'a operation =
    Call_Vector nat
  | Call_Vector_n nat size_t
  | Call_Vector_copy nat nat
  | Call_Vector_move nat nat
  | Call_copy_assign nat nat
  | Call_move_assign nat nat
  | Call_Swap nat nat
  | Call_Reserve nat size_t
  | Call_Resize nat size_t
  | Call_PushBack nat "'a ctor_args"
  | Call_EmplaceBack nat "'a ctor_args"
  | Call_PopBack nat
  | Call_Insert nat nat "'a ctor_args"
  | Call_Emplace nat nat "'a ctor_args"
  | Call_Erase nat nat

text \<open>
  What a call requires of its arguments: the objects it names exist (a constructed one
  does not exist yet), \<^verbatim>\<open>PopBack\<close> is given a vector that is not empty, a position to
  insert at lies in \<^verbatim>\<open>[begin(), end()]\<close> and a position to erase in
  \<^verbatim>\<open>[begin(), end())\<close>. A vector that is to take one more element has fewer than
  \<open>2\<^sup>6\<^sup>3\<close> of them: no allocation of more can succeed.
\<close>

definition exists_vector :: "'a state \<Rightarrow> nat \<Rightarrow> bool" where
  "exists_vector st r = (case vectors st r of None \<Rightarrow> False | Some v \<Rightarrow> True)"

definition can_grow :: "'a state \<Rightarrow> nat \<Rightarrow> bool" where
  "can_grow st r = (case vectors st r of None \<Rightarrow> False | Some v \<Rightarrow> unat (size_m v) < 2 ^ 63)"

fun precondition :: "'a state \<Rightarrow> 'a operation \<Rightarrow> bool" where
  "precondition st (Call_Vector r) = (\<not> exists_vector st r)"
| "precondition st (Call_Vector_n r n) = (\<not> exists_vector st r)"
| "precondition st (Call_Vector_copy r other) = (\<not> exists_vector st r \<and> exists_vector st other)"
| "precondition st (Call_Vector_move r other) = (\<not> exists_vector st r \<and> exists_vector st other)"
| "precondition st (Call_copy_assign r rhs) = (exists_vector st r \<and> exists_vector st rhs)"
| "precondition st (Call_move_assign r rhs) = (exists_vector st r \<and> exists_vector st rhs)"
| "precondition st (Call_Swap r other) = (exists_vector st r \<and> exists_vector st other)"
| "precondition st (Call_Reserve r n) = exists_vector st r"
| "precondition st (Call_Resize r n) = exists_vector st r"
| "precondition st (Call_PushBack r val) = can_grow st r"
| "precondition st (Call_EmplaceBack r args) = can_grow st r"
| "precondition st (Call_PopBack r) =
     (case vectors st r of None \<Rightarrow> False | Some v \<Rightarrow> size_m v \<noteq> 0)"
| "precondition st (Call_Insert r i val) =
     (case vectors st r of None \<Rightarrow> False | Some v \<Rightarrow> i \<le> unat (size_m v) \<and> can_grow st r)"
| "precondition st (Call_Emplace r i args) =
     (case vectors st r of None \<Rightarrow> False | Some v \<Rightarrow> i \<le> unat (size_m v) \<and> can_grow st r)"
| "precondition st (Call_Erase r i) =
     (case vectors st r of None \<Rightarrow> False | Some v \<Rightarrow> i < unat (size_m v))"

text \<open>
  The state a call leaves, \<open>None\<close> when its behaviour is undefined. A call that throws
  leaves a state too: the program goes on after catching the exception.
\<close>

definition put :: "'a state \<Rightarrow> nat \<Rightarrow> 'a memory \<times> Vector \<Rightarrow> 'a state" where
  "put st r s = st\<lparr>mem := fst s, vectors := (vectors st)(r \<mapsto> snd s)\<rparr>"

definition returned :: "'a state \<Rightarrow> nat \<Rightarrow> fault + ('a memory \<times> Vector) \<Rightarrow> 'a state option" where
  "returned st r res = (case res of Inl f \<Rightarrow> None | Inr s \<Rightarrow> Some (put st r s))"

definition completed ::
  "'a state \<Rightarrow> nat \<Rightarrow> ('a memory \<times> Vector, 'r) outcome \<Rightarrow> 'a state option" where
  "completed st r res =
     (case res of Return s x \<Rightarrow> Some (put st r s) | Throw s \<Rightarrow> Some (put st r s)
      | Fault f \<Rightarrow> None)"

definition assigned :: "('a state, nat) outcome \<Rightarrow> 'a state option" where
  "assigned res = (case res of Return st x \<Rightarrow> Some st | Throw st \<Rightarrow> Some st | Fault f \<Rightarrow> None)"

fun call :: "'a element_type \<Rightarrow> 'a state \<Rightarrow> 'a operation \<Rightarrow> 'a state option" where
  "call E st (Call_Vector r) = Some (put st r (mem st, Vector_ctor))"
| "call E st (Call_Vector_n r n) = returned st r (Vector_ctor_n E (mem st) n)"
| "call E st (Call_Vector_copy r other) =
     (case vectors st other of
        None \<Rightarrow> None
      | Some w \<Rightarrow> returned st r (Vector_copy_ctor (mem st) w))"
| "call E st (Call_Vector_move r other) =
     (case vectors st other of
        None \<Rightarrow> None
      | Some w \<Rightarrow>
          (case Vector_move_ctor w of (v, w1) \<Rightarrow>
             Some (st\<lparr>vectors := (vectors st)(other \<mapsto> w1, r \<mapsto> v)\<rparr>)))"
| "call E st (Call_copy_assign r rhs) = assigned (Vector_copy_assign st r rhs)"
| "call E st (Call_move_assign r rhs) = assigned (Vector_move_assign st r rhs)"
| "call E st (Call_Swap r other) =
     (case (vectors st r, vectors st other) of
        (Some v, Some w) \<Rightarrow>
          (case Vector_Swap v w of (v1, w1) \<Rightarrow>
             Some (st\<lparr>vectors := (vectors st)(r \<mapsto> v1, other \<mapsto> w1)\<rparr>))
      | _ \<Rightarrow> None)"
| "call E st (Call_Reserve r n) =
     (case vectors st r of None \<Rightarrow> None | Some v \<Rightarrow> returned st r (Reserve E (mem st) v n))"
| "call E st (Call_Resize r n) =
     (case vectors st r of None \<Rightarrow> None | Some v \<Rightarrow> returned st r (Resize E (mem st) v n))"
| "call E st (Call_PushBack r val) =
     (case vectors st r of None \<Rightarrow> None | Some v \<Rightarrow> completed st r (PushBack E (mem st) v val))"
| "call E st (Call_EmplaceBack r args) =
     (case vectors st r of
        None \<Rightarrow> None
      | Some v \<Rightarrow> completed st r (EmplaceBack E (mem st) v args))"
| "call E st (Call_PopBack r) =
     (case vectors st r of None \<Rightarrow> None | Some v \<Rightarrow> returned st r (PopBack (mem st) v))"
| "call E st (Call_Insert r i val) =
     (case vectors st r of
        None \<Rightarrow> None
      | Some v \<Rightarrow> completed st r (Insert E (mem st) v (ptr_plus (Vector_begin v) i) val))"
| "call E st (Call_Emplace r i args) =
     (case vectors st r of
        None \<Rightarrow> None
      | Some v \<Rightarrow> completed st r (Emplace E (mem st) v (ptr_plus (Vector_begin v) i) args))"
| "call E st (Call_Erase r i) =
     (case vectors st r of
        None \<Rightarrow> None
      | Some v \<Rightarrow>
          (case Erase E (mem st) v (ptr_plus (Vector_begin v) i) of
             Inl f \<Rightarrow> None
           | Inr (s, it) \<Rightarrow> Some (put st r s)))"

text \<open>
  Runs a program. The run ends in a state, or it stops at a call whose precondition does
  not hold, or a call made with its precondition has undefined behaviour and the run
  leaves no state.
\<close>

datatype 'a run = Ends "'a state" | Not_allowed | Undefined_run

fun exec :: "'a element_type \<Rightarrow> 'a operation list \<Rightarrow> 'a state \<Rightarrow> 'a run" where
  "exec E [] st = Ends st"
| "exec E (c # cs) st =
     (if precondition st c
      then (case call E st c of None \<Rightarrow> Undefined_run | Some st' \<Rightarrow> exec E cs st')
      else Not_allowed)"

definition initial_state :: "'a state" where
  "initial_state = \<lparr>mem = \<lparr>blocks = Map.empty, brk = 0, ctor_log = []\<rparr>, vectors = Map.empty\<rparr>"

text \<open>
  A state is well formed when every vector object of it is, and no two of them share a
  buffer.
\<close>

definition well_formed :: "'a state \<Rightarrow> bool" where
  "well_formed st =
     ((\<forall>r v. vectors st r = Some v \<longrightarrow> (\<exists>xs. holds (mem st) v xs)) \<and>
      (\<forall>r r' v v'. vectors st r = Some v \<and> vectors st r' = Some v' \<and> r \<noteq> r' \<and>
         buffer_m (data_m v) \<noteq> None \<longrightarrow> buffer_m (data_m v) \<noteq> buffer_m (data_m v')))"

section \<open>Sample element types and memories\<close>

text \<open>\<^verbatim>\<open>int\<close>: moving cannot throw and leaves the source as it was.\<close>

definition int_type :: "int element_type" where
  "int_type = \<lparr>is_nothrow_move_constructible = True, is_copy_constructible = True,
     moved_from = (\<lambda>x. x), value_init = 0\<rparr>"


definition empty_memory :: "'a memory" where
  "empty_memory = \<lparr>blocks = Map.empty, brk = 0, ctor_log = []\<rparr>"

section \<open>Basic facts\<close>

lemma andthen_simps [simp]:
  "andthen (Inl e) f = Inl e"
  "andthen (Inr x) f = f x"
  by (simp_all add: andthen_def)

lemma run_simps [simp]:
  "run (Inl e) g = Fault e"
  "run (Inr x) g = g x"
  by (simp_all add: run_def)

lemma ptr_plus_Ptr [simp]: "ptr_plus (Ptr b i) n = Ptr b (i + n)"
  by (simp add: ptr_plus_def)

lemma ptr_minus_Ptr [simp]: "n \<le> i \<Longrightarrow> ptr_minus (Ptr b i) n = Some (Ptr b (i - n))"
  by (simp add: ptr_minus_def)

lemma ptr_diff_Ptr [simp]: "j \<le> i \<Longrightarrow> ptr_diff (Ptr b i) (Ptr b j) = Some (i - j)"
  by (simp add: ptr_diff_def)

lemma load_block:
  "blocks m a = Some A \<Longrightarrow> i < length A \<Longrightarrow> load m (Ptr (Some a) i) = Inr (A ! i)"
  by (simp add: load_def)

lemma store_block:
  "blocks m a = Some A \<Longrightarrow> i < length A \<Longrightarrow>
   store m (Ptr (Some a) i) s = Inr (m\<lparr>blocks := (blocks m)(a \<mapsto> A[i := s])\<rparr>)"
  by (simp add: store_def)

lemma read_object_block:
  "blocks m a = Some A \<Longrightarrow> i < length A \<Longrightarrow> A ! i = Obj x \<Longrightarrow>
   read_object m (Ptr (Some a) i) = Inr x"
  by (simp add: read_object_def load_block)

lemma copy_construct_block:
  "blocks m a = Some A \<Longrightarrow> i < length A \<Longrightarrow> A ! i = Obj x \<Longrightarrow>
   blocks m b = Some B \<Longrightarrow> j < length B \<Longrightarrow>
   copy_construct m (Ptr (Some a) i) (Ptr (Some b) j) =
     Inr (m\<lparr>blocks := (blocks m)(b \<mapsto> B[j := Obj x]),
            ctor_log := ctor_log m @ [CopyConstructed x]\<rparr>)"
  by (simp add: copy_construct_def read_object_block construct_at_def store_block record_event_def)

lemma take_drop_Obj_Cons:
  assumes "take (Suc n) (drop s A) = map Obj xs" "s + Suc n \<le> length A"
  obtains x xs' where "xs = x # xs'" "A ! s = Obj x" "take n (drop (Suc s) A) = map Obj xs'"
proof -
  have "length (map Obj xs) = length (take (Suc n) (drop s A))" by (simp only: assms(1))
  with assms(2) have "length xs = Suc n" by simp
  then obtain x xs' where xs: "xs = x # xs'" by (cases xs) auto
  from assms(2) have "s < length A" by simp
  then have "drop s A = A ! s # drop (Suc s) A" by (simp add: Cons_nth_drop_Suc)
  with assms(1) xs have "A ! s = Obj x" "take n (drop (Suc s) A) = map Obj xs'" by simp_all
  with xs show thesis by (rule that)
qed

lemma take_Suc_update [simp]:
  "d < length B \<Longrightarrow> take (Suc d) (B[d := y]) = take d B @ [y]"
  by (simp add: take_Suc_conv_app_nth)

lemma uninitialized_copy_n_blocks:
  "blocks m a = Some A \<Longrightarrow> blocks m b = Some B \<Longrightarrow> a \<noteq> b \<Longrightarrow> s + n \<le> length A \<Longrightarrow>
   d + n \<le> length B \<Longrightarrow> take n (drop s A) = map Obj xs \<Longrightarrow>
   uninitialized_copy_n m (Ptr (Some a) s) n (Ptr (Some b) d) =
     Inr (m\<lparr>blocks := (blocks m)(b \<mapsto> take d B @ map Obj xs @ drop (d + n) B),
            ctor_log := ctor_log m @ map CopyConstructed xs\<rparr>)"
proof (induction n arbitrary: m s d B xs)
  case 0
  then show ?case by (simp add: map_upd_triv)
next
  case (Suc n)
  from Suc.prems(6,4) obtain x xs' where xs: "xs = x # xs'" and x: "A ! s = Obj x"
    and rest: "take n (drop (Suc s) A) = map Obj xs'"
    by (rule take_drop_Obj_Cons)
  let ?m = "m\<lparr>blocks := (blocks m)(b \<mapsto> B[d := Obj x]),
            ctor_log := ctor_log m @ [CopyConstructed x]\<rparr>"
  have "uninitialized_copy_n m (Ptr (Some a) s) (Suc n) (Ptr (Some b) d) =
        uninitialized_copy_n ?m (Ptr (Some a) (Suc s)) n (Ptr (Some b) (Suc d))"
    using Suc.prems x by (simp add: copy_construct_block)
  also have "\<dots> =
     Inr (?m\<lparr>blocks := (blocks ?m)(b \<mapsto> take (Suc d) (B[d := Obj x]) @ map Obj xs' @ drop (Suc d + n) (B[d := Obj x])),
            ctor_log := ctor_log ?m @ map CopyConstructed xs'\<rparr>)"
    using Suc.prems rest by (intro Suc.IH) simp_all
  also have "\<dots> = Inr (m\<lparr>blocks := (blocks m)(b \<mapsto> take d B @ map Obj xs @ drop (d + Suc n) B),
            ctor_log := ctor_log m @ map CopyConstructed xs\<rparr>)"
    using Suc.prems(5) xs by simp
  finally show ?case .
qed


lemma move_construct_block:
  "blocks m a = Some A \<Longrightarrow> i < length A \<Longrightarrow> A ! i = Obj x \<Longrightarrow>
   blocks m b = Some B \<Longrightarrow> j < length B \<Longrightarrow> a \<noteq> b \<Longrightarrow>
   move_construct E m (Ptr (Some a) i) (Ptr (Some b) j) =
     Inr (m\<lparr>blocks := (blocks m)(a \<mapsto> A[i := Obj (moved_from E x)], b \<mapsto> B[j := Obj x]),
            ctor_log := ctor_log m @ [MoveConstructed x]\<rparr>)"
  by (simp add: move_construct_def read_object_block construct_at_def store_block record_event_def)

lemma uninitialized_move_n_blocks:
  "blocks m a = Some A \<Longrightarrow> blocks m b = Some B \<Longrightarrow> a \<noteq> b \<Longrightarrow> s + n \<le> length A \<Longrightarrow>
   d + n \<le> length B \<Longrightarrow> take n (drop s A) = map Obj xs \<Longrightarrow>
   uninitialized_move_n E m (Ptr (Some a) s) n (Ptr (Some b) d) =
     Inr (m\<lparr>blocks := (blocks m)
              (a \<mapsto> take s A @ map (\<lambda>x. Obj (moved_from E x)) xs @ drop (s + n) A,
               b \<mapsto> take d B @ map Obj xs @ drop (d + n) B),
            ctor_log := ctor_log m @ map MoveConstructed xs\<rparr>)"
proof (induction n arbitrary: m s d A B xs)
  case 0
  then show ?case by (simp add: map_upd_triv)
next
  case (Suc n)
  from Suc.prems(6,4) obtain x xs' where xs: "xs = x # xs'" and x: "A ! s = Obj x"
    and rest: "take n (drop (Suc s) A) = map Obj xs'"
    by (rule take_drop_Obj_Cons)
  let ?A = "A[s := Obj (moved_from E x)]" and ?B = "B[d := Obj x]"
  let ?m = "m\<lparr>blocks := (blocks m)(a \<mapsto> ?A, b \<mapsto> ?B),
            ctor_log := ctor_log m @ [MoveConstructed x]\<rparr>"
  have "uninitialized_move_n E m (Ptr (Some a) s) (Suc n) (Ptr (Some b) d) =
        uninitialized_move_n E ?m (Ptr (Some a) (Suc s)) n (Ptr (Some b) (Suc d))"
    using Suc.prems x by (simp add: move_construct_block)
  also have "\<dots> =
     Inr (?m\<lparr>blocks := (blocks ?m)
              (a \<mapsto> take (Suc s) ?A @ map (\<lambda>x. Obj (moved_from E x)) xs' @ drop (Suc s + n) ?A,
               b \<mapsto> take (Suc d) ?B @ map Obj xs' @ drop (Suc d + n) ?B),
            ctor_log := ctor_log ?m @ map MoveConstructed xs'\<rparr>)"
    using Suc.prems rest by (intro Suc.IH) simp_all
  also have "\<dots> = Inr (m\<lparr>blocks := (blocks m)
              (a \<mapsto> take s A @ map (\<lambda>x. Obj (moved_from E x)) xs @ drop (s + Suc n) A,
               b \<mapsto> take d B @ map Obj xs @ drop (d + Suc n) B),
            ctor_log := ctor_log m @ map MoveConstructed xs\<rparr>)"
    using Suc.prems(3,4,5) xs by (simp add: fun_upd_twist)
  finally show ?case .
qed

lemma uninitialized_value_construct_n_blocks:
  "blocks m b = Some B \<Longrightarrow> d + n \<le> length B \<Longrightarrow>
   uninitialized_value_construct_n E m (Ptr (Some b) d) n =
     Inr (m\<lparr>blocks := (blocks m)(b \<mapsto> take d B @ replicate n (Obj (value_init E)) @ drop (d + n) B),
            ctor_log := ctor_log m @ replicate n (ValueConstructed (value_init E))\<rparr>)"
proof (induction n arbitrary: m d B)
  case 0
  then show ?case by (simp add: map_upd_triv)
next
  case (Suc n)
  let ?v = "value_init E"
  let ?m = "m\<lparr>blocks := (blocks m)(b \<mapsto> B[d := Obj ?v]),
            ctor_log := ctor_log m @ [ValueConstructed ?v]\<rparr>"
  have "uninitialized_value_construct_n E m (Ptr (Some b) d) (Suc n) =
        uninitialized_value_construct_n E ?m (Ptr (Some b) (Suc d)) n"
    using Suc.prems by (simp add: value_construct_def construct_at_def store_block record_event_def)
  also have "\<dots> =
     Inr (?m\<lparr>blocks := (blocks ?m)(b \<mapsto> take (Suc d) (B[d := Obj ?v]) @ replicate n (Obj ?v) @ drop (Suc d + n) (B[d := Obj ?v])),
            ctor_log := ctor_log ?m @ replicate n (ValueConstructed ?v)\<rparr>)"
    using Suc.prems by (intro Suc.IH) simp_all
  also have "\<dots> = Inr (m\<lparr>blocks := (blocks m)(b \<mapsto> take d B @ replicate (Suc n) (Obj ?v) @ drop (d + Suc n) B),
            ctor_log := ctor_log m @ replicate (Suc n) (ValueConstructed ?v)\<rparr>)"
    using Suc.prems(2) by simp
  finally show ?case .
qed

lemma destroy_at_block:
  "blocks m a = Some A \<Longrightarrow> i < length A \<Longrightarrow> A ! i \<noteq> Raw \<Longrightarrow>
   destroy_at m (Ptr (Some a) i) = Inr (m\<lparr>blocks := (blocks m)(a \<mapsto> A[i := Raw])\<rparr>)"
  by (cases "A ! i") (simp_all add: destroy_at_def read_object_block store_block)

lemma destroy_n_blocks:
  "blocks m a = Some A \<Longrightarrow> s + n \<le> length A \<Longrightarrow> Raw \<notin> set (take n (drop s A)) \<Longrightarrow>
   destroy_n m (Ptr (Some a) s) n =
     Inr (m\<lparr>blocks := (blocks m)(a \<mapsto> take s A @ replicate n Raw @ drop (s + n) A)\<rparr>)"
proof (induction n arbitrary: m s A)
  case 0
  then show ?case by (simp add: map_upd_triv)
next
  case (Suc n)
  from Suc.prems(2) have s: "s < length A" by simp
  then have dr: "drop s A = A ! s # drop (Suc s) A" by (simp add: Cons_nth_drop_Suc)
  with Suc.prems(3) have x: "A ! s \<noteq> Raw" and rest: "Raw \<notin> set (take n (drop (Suc s) A))"
    by auto
  let ?m = "m\<lparr>blocks := (blocks m)(a \<mapsto> A[s := Raw])\<rparr>"
  have "destroy_n m (Ptr (Some a) s) (Suc n) = destroy_n ?m (Ptr (Some a) (Suc s)) n"
    using Suc.prems x s by (simp add: destroy_at_block)
  also have "\<dots> = Inr (?m\<lparr>blocks := (blocks ?m)(a \<mapsto> take (Suc s) (A[s := Raw]) @ replicate n Raw @ drop (Suc s + n) (A[s := Raw]))\<rparr>)"
    using Suc.prems rest by (intro Suc.IH) simp_all
  also have "\<dots> = Inr (m\<lparr>blocks := (blocks m)(a \<mapsto> take s A @ replicate (Suc n) Raw @ drop (s + Suc n) A)\<rparr>)"
    using s by simp
  finally show ?case .
qed

lemmas raw_defs = RawMemory_ctor_def Allocate_def RawMemory_dtor_def Deallocate_def
  RawMemory_default_def RawMemory_move_ctor_def RawMemory_plus_def RawMemory_index_def
  RawMemory_Swap_def RawMemory_GetAddress_def RawMemory_Capacity_def

lemmas object_defs = load_def store_def read_object_def construct_at_def destroy_at_def
  copy_construct_def move_construct_def value_construct_def copy_assign_object_def
  move_assign_object_def record_event_def

lemmas vector_defs = Vector_begin_def Vector_end_def Vector_ctor_def Vector_ctor_n_def
  Vector_copy_ctor_def Vector_move_ctor_def Vector_dtor_def Vector_Swap_def Size_def Capacity_def

lemma loops_numeral:
  "destroy_n m p (numeral k) = destroy_n m p (Suc (pred_numeral k))"
  "uninitialized_copy_n m p (numeral k) q = uninitialized_copy_n m p (Suc (pred_numeral k)) q"
  "uninitialized_move_n E m p (numeral k) q = uninitialized_move_n E m p (Suc (pred_numeral k)) q"
  "uninitialized_value_construct_n E m p (numeral k) = uninitialized_value_construct_n E m p (Suc (pred_numeral k))"
  "move_forward E m p (numeral k) q = move_forward E m p (Suc (pred_numeral k)) q"
  "move_backward_n E m p (numeral k) q = move_backward_n E m p (Suc (pred_numeral k)) q"
  "assign_loop m d r i (numeral k) = assign_loop m d r i (Suc (pred_numeral k))"
  by (simp_all only: numeral_eq_Suc)

lemma loops_One:
  "destroy_n m p 1 = destroy_n m p (Suc 0)"
  "move_forward E m p 1 q = move_forward E m p (Suc 0) q"
  "uninitialized_copy_n m p 1 q = uninitialized_copy_n m p (Suc 0) q"
  "uninitialized_move_n E m p 1 q = uninitialized_move_n E m p (Suc 0) q"
  "uninitialized_value_construct_n E m p 1 = uninitialized_value_construct_n E m p (Suc 0)"
  "move_backward_n E m p 1 q = move_backward_n E m p (Suc 0) q"
  "assign_loop m d r i 1 = assign_loop m d r i (Suc 0)"
  by simp_all


lemma destroy_n_first_fails:
  "destroy_at m p = Inl f \<Longrightarrow> n \<noteq> 0 \<Longrightarrow> destroy_n m p n = Inl f"
  by (cases n) simp_all

lemma length_block_of [simp]: "length xs \<le> c \<Longrightarrow> length (block_of xs c) = c"
  by (simp add: block_of_def)

lemma take_block_of [simp]: "take (length xs) (block_of xs c) = map Obj xs"
  by (simp add: block_of_def)

lemma drop_block_of [simp]: "drop (length xs) (block_of xs c) = replicate (c - length xs) Raw"
  by (simp add: block_of_def)

lemma block_of_Nil [simp]: "block_of [] c = replicate c Raw"
  by (simp add: block_of_def)

lemma Raw_notin_Obj_image [simp]: "Raw \<notin> Obj ` S"
  by auto

lemma word_le_0D: "(s :: size_t) \<le> 0 \<Longrightarrow> s = 0"
  by simp

lemma Reserve_noop:
  "new_capacity \<le> capacity_m (data_m v) \<Longrightarrow> Reserve E m v new_capacity = Inr (m, v)"
  by (simp add: Reserve_def RawMemory_Capacity_def)

lemma Reserve_grow:
  assumes "holds m v xs" "capacity_m (data_m v) < n"
  shows "Reserve E m v n =
     Inr (m\<lparr>blocks := release (buffer_m (data_m v)) ((blocks m)(brk m \<mapsto> block_of xs (unat n))),
            brk := Suc (brk m),
            ctor_log := ctor_log m @ relocation_log E xs\<rparr>,
          v\<lparr>data_m := \<lparr>buffer_m = Some (brk m), capacity_m = n\<rparr>\<rparr>)"
proof (cases "buffer_m (data_m v)")
  case None
  with assms(1) have "size_m v = 0" "xs = []" by (auto simp: holds_def)
  with assms(2) None show ?thesis
    by (cases m) (auto simp add: Reserve_def RawMemory_Capacity_def RawMemory_ctor_def Allocate_def
        RawMemory_GetAddress_def RawMemory_Swap_def RawMemory_dtor_def Deallocate_def
        relocation_log_def release_def)
next
  case (Some a)
  let ?c = "unat (capacity_m (data_m v))"
  from assms(1) Some have len: "unat (size_m v) = length xs" and le: "length xs \<le> ?c"
    and a: "a < brk m" and blk: "blocks m a = Some (block_of xs ?c)"
    by (auto simp: holds_def word_le_nat_alt)
  from assms(2) have n: "n \<noteq> 0" "?c < unat n" by (auto simp: word_less_nat_alt)
  from assms(2) have nle: "\<not> n \<le> capacity_m (data_m v)" by simp
  let ?m1 = "m\<lparr>blocks := (blocks m)(brk m \<mapsto> replicate (unat n) Raw), brk := Suc (brk m)\<rparr>"
  have ctor: "RawMemory_ctor m n = (?m1, \<lparr>buffer_m = Some (brk m), capacity_m = n\<rparr>)"
    using n by (simp add: RawMemory_ctor_def Allocate_def)
  have src: "blocks ?m1 a = Some (block_of xs ?c)" using a blk by simp
  have dst: "blocks ?m1 (brk m) = Some (replicate (unat n) Raw)" by simp
  have ne: "a \<noteq> brk m" using a by simp
  have tk: "take (length xs) (drop 0 (block_of xs ?c)) = map Obj xs" by simp
  show ?thesis
  proof (cases "is_nothrow_move_constructible E \<or> \<not> is_copy_constructible E")
    case True
    have mv: "uninitialized_move_n E ?m1 (Ptr (Some a) 0) (length xs) (Ptr (Some (brk m)) 0) =
      Inr (?m1\<lparr>blocks := (blocks ?m1)
              (a \<mapsto> take 0 (block_of xs ?c) @ map (\<lambda>x. Obj (moved_from E x)) xs @ drop (0 + length xs) (block_of xs ?c),
               brk m \<mapsto> take 0 (replicate (unat n) Raw) @ map Obj xs @ drop (0 + length xs) (replicate (unat n) Raw)),
            ctor_log := ctor_log ?m1 @ map MoveConstructed xs\<rparr>)"
      using le n by (intro uninitialized_move_n_blocks[OF src dst ne _ _ tk]) simp_all
    let ?A = "map (\<lambda>x. Obj (moved_from E x)) xs @ replicate (?c - length xs) Raw"
    let ?m2 = "m\<lparr>blocks := (blocks m)(a \<mapsto> ?A, brk m \<mapsto> block_of xs (unat n)),
         brk := Suc (brk m), ctor_log := ctor_log m @ map MoveConstructed xs\<rparr>"
    have mv': "uninitialized_move_n E ?m1 (Ptr (Some a) 0) (length xs) (Ptr (Some (brk m)) 0) = Inr ?m2"
      unfolding mv using ne by (simp add: block_of_def fun_upd_twist)
    have "Raw \<notin> set (take (length xs) (drop 0 ?A))" by auto
    then have ds: "destroy_n ?m2 (Ptr (Some a) 0) (length xs) =
       Inr (?m2\<lparr>blocks := (blocks ?m2)(a \<mapsto> take 0 ?A @ replicate (length xs) Raw @ drop (0 + length xs) ?A)\<rparr>)"
      using ne le by (intro destroy_n_blocks) simp_all
    show ?thesis
      using True Some len ctor mv' ne
      by (simp add: Reserve_def RawMemory_Capacity_def nle RawMemory_GetAddress_def ds
          RawMemory_Swap_def RawMemory_dtor_def Deallocate_def relocation_log_def release_def)
  next
    case False
    have cp: "uninitialized_copy_n ?m1 (Ptr (Some a) 0) (length xs) (Ptr (Some (brk m)) 0) =
      Inr (?m1\<lparr>blocks := (blocks ?m1)
              (brk m \<mapsto> take 0 (replicate (unat n) Raw) @ map Obj xs @ drop (0 + length xs) (replicate (unat n) Raw)),
            ctor_log := ctor_log ?m1 @ map CopyConstructed xs\<rparr>)"
      using le n by (intro uninitialized_copy_n_blocks[OF src dst ne _ _ tk]) simp_all
    let ?m2 = "m\<lparr>blocks := (blocks m)(brk m \<mapsto> block_of xs (unat n)),
         brk := Suc (brk m), ctor_log := ctor_log m @ map CopyConstructed xs\<rparr>"
    have cp': "uninitialized_copy_n ?m1 (Ptr (Some a) 0) (length xs) (Ptr (Some (brk m)) 0) = Inr ?m2"
      unfolding cp by (simp add: block_of_def)
    have "Raw \<notin> set (take (length xs) (drop 0 (block_of xs ?c)))" by simp
    then have ds: "destroy_n ?m2 (Ptr (Some a) 0) (length xs) =
       Inr (?m2\<lparr>blocks := (blocks ?m2)(a \<mapsto> take 0 (block_of xs ?c) @ replicate (length xs) Raw @ drop (0 + length xs) (block_of xs ?c))\<rparr>)"
      using ne le blk by (intro destroy_n_blocks) simp_all
    show ?thesis
      using False Some len ctor cp' ne
      by (simp add: Reserve_def RawMemory_Capacity_def nle RawMemory_GetAddress_def ds
          RawMemory_Swap_def RawMemory_dtor_def Deallocate_def relocation_log_def release_def)
  qed
qed

section \<open>Closed forms of the vector operations\<close>

lemma length_residue [simp]: "length (residue E xs) = length xs"
  by (simp add: residue_def)

lemma relocation_log_Nil [simp]: "relocation_log E [] = []"
  by (simp add: relocation_log_def)

lemma length_relocation_log [simp]: "length (relocation_log E xs) = length xs"
  by (simp add: relocation_log_def)

lemma relocate_blocks:
  assumes "blocks m a = Some A" "blocks m b = Some B" "a \<noteq> b" "s + n \<le> length A"
    "d + n \<le> length B" "take n (drop s A) = map Obj ys"
  shows "(if is_nothrow_move_constructible E \<or> \<not> is_copy_constructible E
          then uninitialized_move_n E m (Ptr (Some a) s) n (Ptr (Some b) d)
          else uninitialized_copy_n m (Ptr (Some a) s) n (Ptr (Some b) d)) =
     Inr (m\<lparr>blocks := (blocks m)
              (a \<mapsto> take s A @ map Obj (residue E ys) @ drop (s + n) A,
               b \<mapsto> take d B @ map Obj ys @ drop (d + n) B),
            ctor_log := ctor_log m @ relocation_log E ys\<rparr>)"
proof (cases "is_nothrow_move_constructible E \<or> \<not> is_copy_constructible E")
  case True
  then show ?thesis
    using uninitialized_move_n_blocks[OF assms, of E]
    by (simp add: residue_def relocation_log_def comp_def)
next
  case False
  have "take s A @ map Obj ys @ drop (s + n) A = A"
    using assms(6) [symmetric] by (simp add: take_add [symmetric] add.commute drop_drop [symmetric] del: drop_drop)
  then have "(blocks m)(a \<mapsto> take s A @ map Obj ys @ drop (s + n) A) = blocks m"
    using assms(1) by (simp add: map_upd_triv)
  with False show ?thesis
    using uninitialized_copy_n_blocks[OF assms]
    by (simp add: residue_def relocation_log_def)
qed

lemma Vector_dtor_block:
  "buffer_m (data_m v) = Some a \<Longrightarrow> blocks m a = Some A \<Longrightarrow> unat (size_m v) \<le> length A \<Longrightarrow>
   Raw \<notin> set (take (unat (size_m v)) A) \<Longrightarrow>
   Vector_dtor m v = Inr (m\<lparr>blocks := (blocks m)(a := None)\<rparr>)"
  using destroy_n_blocks[of m a A 0 "unat (size_m v)"]
  by (simp add: Vector_dtor_def raw_defs)

lemma Vector_dtor_null:
  "buffer_m (data_m v) = None \<Longrightarrow> size_m v = 0 \<Longrightarrow> Vector_dtor m v = Inr m"
  by (simp add: Vector_dtor_def raw_defs)

lemma unat_succ: "(s :: size_t) < c \<Longrightarrow> unat (s + 1) = Suc (unat s)"
proof -
  assume "s < c"
  then have "unat s < unat c" by (simp add: word_less_nat_alt)
  moreover have "unat c < 2 ^ 64" using unsigned_less[of c, where 'a=nat] by simp
  ultimately have "unat s + unat (1 :: size_t) < 2 ^ LENGTH(64)" by simp
  then show ?thesis by (simp add: unat_add_lem [THEN iffD1])
qed

lemma unat_double: "unat (s :: size_t) < 2 ^ 63 \<Longrightarrow> unat (s * 2) = 2 * unat s"
proof -
  assume "unat s < 2 ^ 63"
  then have "unat s * unat (2 :: size_t) < 2 ^ LENGTH(64)" by simp
  then show ?thesis by (simp add: unat_mult_lem [THEN iffD1])
qed

lemma holds_lengthD: "holds m v xs \<Longrightarrow> unat (size_m v) = length xs"
  by (simp add: holds_def)

lemma holds_leD: "holds m v xs \<Longrightarrow> length xs \<le> unat (capacity_m (data_m v))"
  by (simp add: holds_def word_le_nat_alt)

lemma holds_SomeD:
  "holds m v xs \<Longrightarrow> buffer_m (data_m v) = Some a \<Longrightarrow>
   a < brk m \<and> blocks m a = Some (block_of xs (unat (capacity_m (data_m v))))"
  by (simp add: holds_def)

lemma holds_NoneD:
  "holds m v xs \<Longrightarrow> buffer_m (data_m v) = None \<Longrightarrow>
   capacity_m (data_m v) = 0 \<and> size_m v = 0 \<and> xs = []"
  by (auto simp: holds_def)

lemma holds_Vector_ctor [simp]: "holds m Vector_ctor []"
  by (simp add: holds_def Vector_ctor_def RawMemory_default_def)

lemma block_of_snoc:
  "length xs < c \<Longrightarrow> (block_of xs c)[length xs := Obj x] = block_of (xs @ [x]) c"
  by (cases "c - length xs") (simp_all add: block_of_def list_update_append Suc_diff_Suc [symmetric]
      del: replicate_Suc replicate.simps, simp_all)

lemma EmplaceBack_in_place:
  assumes "holds m v xs" "size_m v \<noteq> capacity_m (data_m v)"
  shows "\<exists>a. buffer_m (data_m v) = Some a \<and>
     EmplaceBack E m v (Value x) =
       Return (m\<lparr>blocks := (blocks m)(a \<mapsto> block_of (xs @ [x]) (unat (capacity_m (data_m v)))),
                 ctor_log := ctor_log m @ [Constructed x]\<rparr>,
               v\<lparr>size_m := size_m v + 1\<rparr>) (Reference (Ptr (Some a) (length xs)))"
proof -
  let ?c = "unat (capacity_m (data_m v))"
  from assms have lt: "size_m v < capacity_m (data_m v)" by (auto simp: holds_def)
  then have "capacity_m (data_m v) \<noteq> 0" by auto
  with assms(1) obtain a where a: "buffer_m (data_m v) = Some a"
    by (cases "buffer_m (data_m v)") (auto simp: holds_def)
  from holds_SomeD[OF assms(1) a] have blk: "blocks m a = Some (block_of xs ?c)" by simp
  from lt holds_lengthD[OF assms(1)] have len: "unat (size_m v) = length xs" "length xs < ?c"
    by (simp_all add: word_less_nat_alt)
  have "EmplaceBack E m v (Value x) =
       Return (m\<lparr>blocks := (blocks m)(a \<mapsto> block_of (xs @ [x]) ?c),
                 ctor_log := ctor_log m @ [Constructed x]\<rparr>,
               v\<lparr>size_m := size_m v + 1\<rparr>) (Reference (Ptr (Some a) (length xs)))"
    using assms(2) lt a len blk
    by (simp add: EmplaceBack_def Capacity_def raw_defs construct_at_def store_block
        record_event_def block_of_snoc)
  with a show ?thesis by simp
qed

lemma EmplaceBack_in_place_throw:
  assumes "holds m v xs" "size_m v \<noteq> capacity_m (data_m v)"
  shows "EmplaceBack E m v Throwing = Throw (m, v)"
  using assms by (simp add: EmplaceBack_def Capacity_def raw_defs holds_def)


lemma grow_capacity:
  assumes "unat (s :: size_t) < 2 ^ 63"
  shows "unat (if s = 0 then 1 else s * 2) = (if s = 0 then 1 else 2 * unat s)"
    and "s < (if s = 0 then 1 else s * 2)"
proof -
  show *: "unat (if s = 0 then 1 else s * 2) = (if s = 0 then 1 else 2 * unat s)"
    using assms by (simp add: unat_double)
  show "s < (if s = 0 then 1 else s * 2)"
    unfolding word_less_nat_alt * by (auto simp: unat_gt_0 [symmetric] simp del: unat_gt_0)
qed

lemma replicate_update:
  "k < n \<Longrightarrow> (replicate n Raw)[k := y] = replicate k Raw @ y # replicate (n - Suc k) Raw"
  by (simp add: upd_conv_take_nth_drop min_def)

lemma block_of_snoc_fresh:
  "length xs < n \<Longrightarrow>
   map Obj xs @ drop (length xs) ((replicate n Raw)[length xs := Obj x]) = block_of (xs @ [x]) n"
  by (simp add: replicate_update block_of_def)

lemma Vector_cases:
  obtains buf c s where "v = \<lparr>data_m = \<lparr>buffer_m = buf, capacity_m = c\<rparr>, size_m = s\<rparr>"
proof (cases v)
  case (fields d s)
  then show ?thesis by (cases d) (auto intro: that)
qed

lemma EmplaceBack_grow_fields:
  assumes "holds m \<lparr>data_m = \<lparr>buffer_m = buf, capacity_m = s\<rparr>, size_m = s\<rparr> xs"
    and n: "n = (if s = 0 then 1 else s * 2)" and sn: "s < n"
  shows "EmplaceBack E m \<lparr>data_m = \<lparr>buffer_m = buf, capacity_m = s\<rparr>, size_m = s\<rparr> (Value x) =
     Return (m\<lparr>blocks := release buf ((blocks m)(brk m \<mapsto> block_of (xs @ [x]) (unat n))),
               brk := Suc (brk m),
               ctor_log := ctor_log m @ Constructed x # relocation_log E xs\<rparr>,
             \<lparr>data_m = \<lparr>buffer_m = Some (brk m), capacity_m = n\<rparr>, size_m = s + 1\<rparr>)
       (Reference (Ptr (Some (brk m)) (length xs)))"
proof -
  let ?v = "\<lparr>data_m = \<lparr>buffer_m = buf, capacity_m = s\<rparr>, size_m = s\<rparr>"
  define v where "v = ?v"
  have n': "n = (if size_m v = 0 then 1 else size_m v * 2)" by (simp add: v_def n)
  from sn have n0: "0 < n" by (metis word_gt_0 word_not_simps(1))
  have len: "unat s = length xs" using assms(1) by (simp add: holds_def)
  have ln: "length xs < unat n" using sn len by (simp add: word_less_nat_alt)
  have le: "s \<le> n" using sn by simp
  let ?m1 = "m\<lparr>blocks := (blocks m)(brk m \<mapsto> replicate (unat n) Raw), brk := Suc (brk m)\<rparr>"
  have rs: "Reserve E m Vector_ctor n =
      Inr (?m1, \<lparr>data_m = \<lparr>buffer_m = Some (brk m), capacity_m = n\<rparr>, size_m = 0\<rparr>)"
    using Reserve_grow[OF holds_Vector_ctor, where n=n and m=m and E=E] n0
    by (simp add: Vector_ctor_def RawMemory_default_def release_def)
  let ?B = "(replicate (unat n) Raw)[length xs := Obj x]"
  let ?m2 = "m\<lparr>blocks := (blocks m)(brk m \<mapsto> ?B), brk := Suc (brk m),
               ctor_log := ctor_log m @ [Constructed x]\<rparr>"
  have ct: "andthen (construct_at ?m1 (Ptr (Some (brk m)) (length xs)) x) (record_event (Constructed x))
      = Inr ?m2"
    using ln by (simp add: construct_at_def store_block record_event_def)
  show ?thesis
  proof (cases buf)
    case None
    from holds_NoneD[OF assms(1)] None have z: "s = 0" "xs = []" by simp_all
    have "EmplaceBack E m v (Value x) =
     Return (m\<lparr>blocks := release buf ((blocks m)(brk m \<mapsto> block_of (xs @ [x]) (unat n))),
               brk := Suc (brk m),
               ctor_log := ctor_log m @ Constructed x # relocation_log E xs\<rparr>,
             \<lparr>data_m = \<lparr>buffer_m = Some (brk m), capacity_m = n\<rparr>, size_m = s + 1\<rparr>)
       (Reference (Ptr (Some (brk m)) (length xs)))"
      unfolding EmplaceBack_def n' [symmetric]
      unfolding v_def
      using None z rs ct n0 ln
      by (simp add: Capacity_def raw_defs vector_defs release_def replicate_update block_of_def Let_def)
    then show ?thesis by (simp add: v_def)
  next
    case (Some a)
    from holds_SomeD[OF assms(1)] Some len have a: "a < brk m"
      and blk: "blocks m a = Some (block_of xs (length xs))"
      by simp_all
    have ne: "a \<noteq> brk m" using a by simp
    have src: "blocks ?m2 a = Some (block_of xs (length xs))" using blk ne by simp
    have dst: "blocks ?m2 (brk m) = Some ?B" by simp
    have tk: "take (length xs) (drop 0 (block_of xs (length xs))) = map Obj xs" by simp
    let ?A = "map Obj (residue E xs) @ drop (length xs) (block_of xs (length xs))"
    let ?m3 = "m\<lparr>blocks := (blocks m)(a \<mapsto> ?A, brk m \<mapsto> block_of (xs @ [x]) (unat n)),
         brk := Suc (brk m), ctor_log := ctor_log m @ Constructed x # relocation_log E xs\<rparr>"
    have "(if is_nothrow_move_constructible E \<or> \<not> is_copy_constructible E
          then uninitialized_move_n E ?m2 (Ptr (Some a) 0) (length xs) (Ptr (Some (brk m)) 0)
          else uninitialized_copy_n ?m2 (Ptr (Some a) 0) (length xs) (Ptr (Some (brk m)) 0)) =
       Inr (?m2\<lparr>blocks := (blocks ?m2)
              (a \<mapsto> take 0 (block_of xs (length xs)) @ map Obj (residue E xs) @ drop (0 + length xs) (block_of xs (length xs)),
               brk m \<mapsto> take 0 ?B @ map Obj xs @ drop (0 + length xs) ?B),
            ctor_log := ctor_log ?m2 @ relocation_log E xs\<rparr>)"
      using ln by (intro relocate_blocks[OF src dst ne _ _ tk]) simp_all
    also have "\<dots> = Inr ?m3"
      using ln ne by (simp add: block_of_snoc_fresh fun_upd_twist)
    finally have mg: "(if is_nothrow_move_constructible E \<or> \<not> is_copy_constructible E
          then uninitialized_move_n E ?m2 (Ptr (Some a) 0) (length xs) (Ptr (Some (brk m)) 0)
          else uninitialized_copy_n ?m2 (Ptr (Some a) 0) (length xs) (Ptr (Some (brk m)) 0)) = Inr ?m3" .
    have dt: "Vector_dtor ?m3 ?v = Inr (?m3\<lparr>blocks := (blocks ?m3)(a := None)\<rparr>)"
      using Some ne len by (intro Vector_dtor_block[where A="?A"]) simp_all
    have "EmplaceBack E m v (Value x) =
     Return (m\<lparr>blocks := release buf ((blocks m)(brk m \<mapsto> block_of (xs @ [x]) (unat n))),
               brk := Suc (brk m),
               ctor_log := ctor_log m @ Constructed x # relocation_log E xs\<rparr>,
             \<lparr>data_m = \<lparr>buffer_m = Some (brk m), capacity_m = n\<rparr>, size_m = s + 1\<rparr>)
       (Reference (Ptr (Some (brk m)) (length xs)))"
      unfolding EmplaceBack_def n' [symmetric]
      unfolding v_def
      using Some rs ct mg dt le len ne
      by (simp add: Capacity_def raw_defs vector_defs release_def Let_def cong: if_cong)
    then show ?thesis by (simp add: v_def)
  qed
qed

lemma EmplaceBack_grow:
  assumes "holds m v xs" "size_m v = capacity_m (data_m v)" "unat (size_m v) < 2 ^ 63"
  shows "EmplaceBack E m v (Value x) =
     Return (m\<lparr>blocks := release (buffer_m (data_m v))
                 ((blocks m)(brk m \<mapsto> block_of (xs @ [x])
                    (unat (if size_m v = 0 then 1 else size_m v * 2)))),
               brk := Suc (brk m),
               ctor_log := ctor_log m @ Constructed x # relocation_log E xs\<rparr>,
             \<lparr>data_m = \<lparr>buffer_m = Some (brk m),
                        capacity_m = (if size_m v = 0 then 1 else size_m v * 2)\<rparr>,
              size_m = size_m v + 1\<rparr>)
       (Reference (Ptr (Some (brk m)) (length xs)))"
proof -
  obtain buf c s where v: "v = \<lparr>data_m = \<lparr>buffer_m = buf, capacity_m = c\<rparr>, size_m = s\<rparr>"
    by (rule Vector_cases)
  with assms(2) have c: "c = s" by simp
  from assms(3) v have "s < (if s = 0 then 1 else s * 2)" by (simp add: grow_capacity(2))
  from EmplaceBack_grow_fields[OF assms(1)[unfolded v c] refl this]
  show ?thesis unfolding v c by simp
qed

section \<open>Postconditions of append and removal\<close>

lemma holdsI:
  "blocks m a = Some (block_of xs (unat c)) \<Longrightarrow> a < brk m \<Longrightarrow> c \<noteq> 0 \<Longrightarrow> unat s = length xs \<Longrightarrow>
   s \<le> c \<Longrightarrow> holds m \<lparr>data_m = \<lparr>buffer_m = Some a, capacity_m = c\<rparr>, size_m = s\<rparr> xs"
  by (simp add: holds_def)

lemma block_of_butlast:
  "xs \<noteq> [] \<Longrightarrow> length xs \<le> c \<Longrightarrow>
   (block_of xs c)[length xs - Suc 0 := Raw] = block_of (butlast xs) c"
proof (induction xs rule: rev_induct)
  case Nil
  then show ?case by simp
next
  case (snoc x xs)
  then have "c - length xs = Suc (c - Suc (length xs))" by simp
  then show ?case
    by (simp add: block_of_def list_update_append replicate_Suc [symmetric] del: replicate_Suc replicate.simps)
qed

lemma PopBack_closed:
  assumes "holds m v xs" "xs \<noteq> []"
  shows "\<exists>a. buffer_m (data_m v) = Some a \<and>
     PopBack m v =
       Inr (m\<lparr>blocks := (blocks m)(a \<mapsto> block_of (butlast xs) (unat (capacity_m (data_m v))))\<rparr>,
            v\<lparr>size_m := size_m v - 1\<rparr>)"
proof -
  let ?c = "unat (capacity_m (data_m v))"
  from assms have len: "unat (size_m v) = length xs" and le: "length xs \<le> ?c"
    by (simp_all add: holds_lengthD holds_leD)
  with assms(2) have "0 < ?c" by (cases xs) simp_all
  then have "capacity_m (data_m v) \<noteq> 0" by (simp add: unat_gt_0)
  with assms(1) obtain a where a: "buffer_m (data_m v) = Some a"
    by (cases "buffer_m (data_m v)") (auto simp: holds_def)
  from holds_SomeD[OF assms(1) a] have blk: "blocks m a = Some (block_of xs ?c)" by simp
  have pos: "0 < length xs" using assms(2) by simp
  have obj: "block_of xs ?c ! (length xs - Suc 0) \<noteq> Raw"
    using pos by (simp add: block_of_def nth_append)
  have i: "length xs - Suc 0 < length (block_of xs ?c)" using assms(2) le by (cases xs) simp_all
  have "destroy_n m (Ptr (Some a) (length xs - Suc 0)) 1 =
      Inr (m\<lparr>blocks := (blocks m)(a \<mapsto> (block_of xs ?c)[length xs - Suc 0 := Raw])\<rparr>)"
    by (simp add: loops_One destroy_at_block[OF blk i obj])
  then have "PopBack m v =
       Inr (m\<lparr>blocks := (blocks m)(a \<mapsto> block_of (butlast xs) ?c)\<rparr>, v\<lparr>size_m := size_m v - 1\<rparr>)"
    using a len pos le assms(2)
    by (simp add: PopBack_def raw_defs block_of_butlast ptr_minus_def Suc_le_eq)
  with a show ?thesis by simp
qed

lemma unat_pred: "(s :: size_t) \<noteq> 0 \<Longrightarrow> unat (s - 1) = unat s - 1"
  by (simp add: unat_minus_one)

lemma word_pred_le: "(s :: size_t) \<noteq> 0 \<Longrightarrow> s \<le> c \<Longrightarrow> s - 1 \<le> c"
  by (simp add: word_le_nat_alt unat_pred)

lemma PopBack_holds:
  assumes "holds m v xs" "xs \<noteq> []"
  shows "\<exists>m' v'. PopBack m v = Inr (m', v') \<and> holds m' v' (butlast xs) \<and>
     data_m v' = data_m v \<and> size_m v' = size_m v - 1 \<and> frame (buffer_m (data_m v)) m m' \<and>
     ctor_log m' = ctor_log m"
proof -
  from PopBack_closed[OF assms] obtain a where a: "buffer_m (data_m v) = Some a"
    and p: "PopBack m v =
       Inr (m\<lparr>blocks := (blocks m)(a \<mapsto> block_of (butlast xs) (unat (capacity_m (data_m v))))\<rparr>,
            v\<lparr>size_m := size_m v - 1\<rparr>)" by blast
  from assms have "size_m v \<noteq> 0" by (auto simp: holds_def)
  with assms(1) a have "holds (m\<lparr>blocks := (blocks m)(a \<mapsto> block_of (butlast xs) (unat (capacity_m (data_m v))))\<rparr>)
      (v\<lparr>size_m := size_m v - 1\<rparr>) (butlast xs)"
    by (simp add: holds_def unat_pred word_pred_le)
  with p a show ?thesis by (simp add: frame_def)
qed

lemma word_less_nonzero: "(s :: size_t) < n \<Longrightarrow> n \<noteq> 0"
  by auto

lemma EmplaceBack_holds:
  assumes "holds m v xs" "unat (size_m v) < 2 ^ 63"
  shows "\<exists>m' v'. EmplaceBack E m v (Value x) =
        Return (m', v') (Reference (Ptr (buffer_m (data_m v')) (length xs))) \<and>
     holds m' v' (xs @ [x]) \<and> size_m v' = size_m v + 1 \<and>
     frame (buffer_m (data_m v)) m m' \<and>
     (buffer_m (data_m v') = buffer_m (data_m v) \<or> buffer_m (data_m v') = Some (brk m)) \<and>
     (size_m v \<noteq> capacity_m (data_m v) \<longrightarrow>
        data_m v' = data_m v \<and> ctor_log m' = ctor_log m @ [Constructed x]) \<and>
     (size_m v = capacity_m (data_m v) \<longrightarrow>
        ctor_log m' = ctor_log m @ Constructed x # relocation_log E xs)"
proof (cases "size_m v = capacity_m (data_m v)")
  case True
  let ?n = "if size_m v = 0 then 1 else size_m v * 2"
  note g = grow_capacity[OF assms(2)]
  have len: "unat (size_m v) = length xs" using assms(1) by (rule holds_lengthD)
  from g(2) have n0: "?n \<noteq> 0" by (rule word_less_nonzero)
  have s1: "size_m v + 1 \<le> ?n" using g(2) by (rule inc_le)
  have u: "unat (size_m v + 1) = Suc (length xs)" using unat_succ[OF g(2)] len by simp
  have fr: "frame (buffer_m (data_m v)) m
      (m\<lparr>blocks := release (buffer_m (data_m v)) ((blocks m)(brk m \<mapsto> block_of (xs @ [x]) (unat ?n))),
               brk := Suc (brk m),
               ctor_log := ctor_log m @ Constructed x # relocation_log E xs\<rparr>)"
    by (auto simp: frame_def release_def split: option.splits)
  have bl: "release (buffer_m (data_m v)) ((blocks m)(brk m \<mapsto> block_of (xs @ [x]) (unat ?n))) (brk m)
      = Some (block_of (xs @ [x]) (unat ?n))"
    using assms(1) by (auto simp: release_def holds_def split: option.splits)
  have "holds (m\<lparr>blocks := release (buffer_m (data_m v)) ((blocks m)(brk m \<mapsto> block_of (xs @ [x]) (unat ?n))),
               brk := Suc (brk m),
               ctor_log := ctor_log m @ Constructed x # relocation_log E xs\<rparr>)
             \<lparr>data_m = \<lparr>buffer_m = Some (brk m), capacity_m = ?n\<rparr>, size_m = size_m v + 1\<rparr> (xs @ [x])"
    using n0 s1 u bl by (intro holdsI) (simp_all del: fun_upd_apply)
  with True fr show ?thesis
    unfolding EmplaceBack_grow[OF assms(1) True assms(2)] by simp
next
  case False
  from EmplaceBack_in_place[OF assms(1) False] obtain a where a: "buffer_m (data_m v) = Some a"
    and e: "EmplaceBack E m v (Value x) =
       Return (m\<lparr>blocks := (blocks m)(a \<mapsto> block_of (xs @ [x]) (unat (capacity_m (data_m v)))),
                 ctor_log := ctor_log m @ [Constructed x]\<rparr>,
               v\<lparr>size_m := size_m v + 1\<rparr>) (Reference (Ptr (Some a) (length xs)))" by blast
  from assms(1) False have lt: "size_m v < capacity_m (data_m v)" by (auto simp: holds_def)
  have "holds (m\<lparr>blocks := (blocks m)(a \<mapsto> block_of (xs @ [x]) (unat (capacity_m (data_m v)))),
                 ctor_log := ctor_log m @ [Constructed x]\<rparr>) (v\<lparr>size_m := size_m v + 1\<rparr>) (xs @ [x])"
    using assms(1) a lt by (simp add: holds_def unat_succ[OF lt] inc_le)
  with e a False show ?thesis by (simp add: frame_def)
qed

lemma PushBack_EmplaceBack:
  "EmplaceBack E m v args = Return s r \<Longrightarrow> PushBack E m v args = Return s Void"
  by (simp add: PushBack_def)

lemma apply_ops_holds:
  "holds m v xs \<Longrightarrow> pops_allowed (length xs) ops \<Longrightarrow> length xs + length ops < 2 ^ 63 \<Longrightarrow>
   \<exists>m' v'. apply_ops E ops (m, v) = Some (m', v') \<and> holds m' v' (survivors xs ops) \<and>
     length (survivors xs ops) + pops ops = length xs + pushes ops"
proof (induction ops arbitrary: m v xs)
  case Nil
  then show ?case by simp
next
  case (Cons op ops)
  show ?case
  proof (cases op)
    case (Push x)
    from Cons.prems have "unat (size_m v) < 2 ^ 63" by (simp add: holds_lengthD)
    from EmplaceBack_holds[OF Cons.prems(1) this, of E x] obtain m1 v1 r where
      e: "EmplaceBack E m v (Value x) = Return (m1, v1) r" and h: "holds m1 v1 (xs @ [x])" by blast
    from Cons.prems Push have "pops_allowed (length (xs @ [x])) ops" "length (xs @ [x]) + length ops < 2 ^ 63"
      by simp_all
    from Cons.IH[OF h this] Push PushBack_EmplaceBack[OF e] show ?thesis by simp
  next
    case Pop
    with Cons.prems have ne: "xs \<noteq> []" by auto
    from PopBack_holds[OF Cons.prems(1) ne] obtain m1 v1 where
      p: "PopBack m v = Inr (m1, v1)" and h: "holds m1 v1 (butlast xs)" by blast
    from Cons.prems Pop ne have "pops_allowed (length (butlast xs)) ops" "length (butlast xs) + length ops < 2 ^ 63"
      by simp_all
    from Cons.IH[OF h this] Pop p ne show ?thesis by (cases xs rule: rev_cases) auto
  qed
qed



lemma Reserve_holds:
  assumes "holds m v xs"
  shows "\<exists>m' v'. Reserve E m v n = Inr (m', v') \<and> holds m' v' xs \<and> n \<le> capacity_m (data_m v') \<and>
     size_m v' = size_m v \<and> frame (buffer_m (data_m v)) m m' \<and>
     (buffer_m (data_m v') = buffer_m (data_m v) \<or> buffer_m (data_m v') = Some (brk m))"
proof (cases "n \<le> capacity_m (data_m v)")
  case True
  with assms show ?thesis by (simp add: Reserve_noop frame_def)
next
  case False
  then have lt: "capacity_m (data_m v) < n" by simp
  then have n0: "n \<noteq> 0" by (rule word_less_nonzero)
  have sn: "size_m v \<le> n" using assms lt by (auto simp: holds_def)
  have bl: "release (buffer_m (data_m v)) ((blocks m)(brk m \<mapsto> block_of xs (unat n))) (brk m)
      = Some (block_of xs (unat n))"
    using assms by (auto simp: release_def holds_def split: option.splits)
  have fr: "frame (buffer_m (data_m v)) m
      (m\<lparr>blocks := release (buffer_m (data_m v)) ((blocks m)(brk m \<mapsto> block_of xs (unat n))),
            brk := Suc (brk m), ctor_log := ctor_log m @ relocation_log E xs\<rparr>)"
    by (auto simp: frame_def release_def split: option.splits)
  obtain buf c s where v: "v = \<lparr>data_m = \<lparr>buffer_m = buf, capacity_m = c\<rparr>, size_m = s\<rparr>"
    by (rule Vector_cases)
  have "holds (m\<lparr>blocks := release (buffer_m (data_m v)) ((blocks m)(brk m \<mapsto> block_of xs (unat n))),
            brk := Suc (brk m), ctor_log := ctor_log m @ relocation_log E xs\<rparr>)
          (v\<lparr>data_m := \<lparr>buffer_m = Some (brk m), capacity_m = n\<rparr>\<rparr>) xs"
    unfolding v using n0 sn bl holds_lengthD[OF assms] v
    by (simp del: fun_upd_apply) (rule holdsI, simp_all del: fun_upd_apply)
  with fr show ?thesis unfolding Reserve_grow[OF assms lt] by simp
qed

lemma holds_read_object:
  "holds m v ys \<Longrightarrow> i < length ys \<Longrightarrow>
   read_object m (Ptr (buffer_m (data_m v)) i) = Inr (ys ! i)"
  by (cases "buffer_m (data_m v)")
     (auto simp: holds_def read_object_def load_def block_of_def nth_append word_le_nat_alt)

section \<open>Shifting elements inside a block\<close>

lemma move_assign_object_same_block:
  "blocks m a = Some A \<Longrightarrow> i < length A \<Longrightarrow> j < length A \<Longrightarrow> A ! i = Obj x \<Longrightarrow>
   A ! j = Obj y \<Longrightarrow>
   move_assign_object E m (Ptr (Some a) i) (Ptr (Some a) j) =
     Inr (m\<lparr>blocks := (blocks m)(a \<mapsto> A[i := Obj (moved_from E x), j := Obj x])\<rparr>)"
  by (simp add: move_assign_object_def read_object_block store_block)

lemma move_assign_object_blocks:
  "blocks m a = Some A \<Longrightarrow> i < length A \<Longrightarrow> A ! i = Obj x \<Longrightarrow>
   blocks m b = Some B \<Longrightarrow> j < length B \<Longrightarrow> B ! j = Obj y \<Longrightarrow> a \<noteq> b \<Longrightarrow>
   move_assign_object E m (Ptr (Some a) i) (Ptr (Some b) j) =
     Inr (m\<lparr>blocks := (blocks m)(a \<mapsto> A[i := Obj (moved_from E x)], b \<mapsto> B[j := Obj x])\<rparr>)"
  by (simp add: move_assign_object_def read_object_block store_block)

lemma move_construct_same_block:
  "blocks m a = Some A \<Longrightarrow> i < length A \<Longrightarrow> j < length A \<Longrightarrow> A ! i = Obj x \<Longrightarrow>
   move_construct E m (Ptr (Some a) i) (Ptr (Some a) j) =
     Inr (m\<lparr>blocks := (blocks m)(a \<mapsto> A[i := Obj (moved_from E x), j := Obj x]),
            ctor_log := ctor_log m @ [MoveConstructed x]\<rparr>)"
  by (simp add: move_construct_def read_object_block construct_at_def store_block record_event_def)

lemma move_forward_shift:
  "blocks m a = Some (pre @ map Obj (y # ys) @ post) \<Longrightarrow>
   move_forward E m (Ptr (Some a) (Suc (length pre))) (length ys) (Ptr (Some a) (length pre)) =
     Inr (m\<lparr>blocks := (blocks m)(a \<mapsto> pre @ map Obj (shifted_left E y ys) @ post)\<rparr>)"
proof (induction ys arbitrary: m pre y)
  case Nil
  then show ?case by (simp add: shifted_left_def map_upd_triv)
next
  case (Cons z zs)
  let ?A = "pre @ map Obj (y # z # zs) @ post"
  let ?A1 = "(pre @ [Obj z]) @ map Obj (moved_from E z # zs) @ post"
  let ?m1 = "m\<lparr>blocks := (blocks m)(a \<mapsto> ?A1)\<rparr>"
  have up: "?A[Suc (length pre) := Obj (moved_from E z), length pre := Obj z] = ?A1"
    by (simp add: list_update_append)
  have "move_assign_object E m (Ptr (Some a) (Suc (length pre))) (Ptr (Some a) (length pre)) =
      Inr (m\<lparr>blocks := (blocks m)(a \<mapsto> ?A[Suc (length pre) := Obj (moved_from E z), length pre := Obj z])\<rparr>)"
    using Cons.prems
    by (intro move_assign_object_same_block[where x=z and y=y]) (simp_all add: nth_append)
  then have step: "move_assign_object E m (Ptr (Some a) (Suc (length pre))) (Ptr (Some a) (length pre)) = Inr ?m1"
    unfolding up .
  have "move_forward E m (Ptr (Some a) (Suc (length pre))) (length (z # zs)) (Ptr (Some a) (length pre)) =
      move_forward E ?m1 (Ptr (Some a) (Suc (length (pre @ [Obj z])))) (length zs)
          (Ptr (Some a) (length (pre @ [Obj z])))"
    using step by simp
  also have "\<dots> =
     Inr (?m1\<lparr>blocks := (blocks ?m1)(a \<mapsto> (pre @ [Obj z]) @ map Obj (shifted_left E (moved_from E z) zs) @ post)\<rparr>)"
    by (rule Cons.IH) simp
  also have "\<dots> = Inr (m\<lparr>blocks := (blocks m)(a \<mapsto> pre @ map Obj (shifted_left E y (z # zs)) @ post)\<rparr>)"
    by (simp add: shifted_left_def)
  finally show ?case .
qed

lemma move_backward_shift:
  "blocks m a = Some (pre @ map Obj (ys @ [w]) @ post) \<Longrightarrow>
   move_backward_n E m (Ptr (Some a) (length pre)) (length ys)
     (Ptr (Some a) (Suc (length pre + length ys))) =
     Inr (m\<lparr>blocks := (blocks m)(a \<mapsto> pre @ map Obj (shifted_right E ys w) @ post)\<rparr>)"
proof (induction ys arbitrary: m w post rule: rev_induct)
  case Nil
  then show ?case by (simp add: shifted_right_def map_upd_triv)
next
  case (snoc z zs)
  let ?A = "pre @ map Obj ((zs @ [z]) @ [w]) @ post"
  let ?A1 = "pre @ map Obj (zs @ [moved_from E z]) @ (Obj z # post)"
  let ?m1 = "m\<lparr>blocks := (blocks m)(a \<mapsto> ?A1)\<rparr>"
  have up: "?A[length pre + length zs := Obj (moved_from E z), Suc (length pre + length zs) := Obj z] = ?A1"
    by (simp add: list_update_append)
  have "move_assign_object E m (Ptr (Some a) (length pre + length zs)) (Ptr (Some a) (Suc (length pre + length zs))) =
      Inr (m\<lparr>blocks := (blocks m)(a \<mapsto> ?A[length pre + length zs := Obj (moved_from E z), Suc (length pre + length zs) := Obj z])\<rparr>)"
    using snoc.prems
    by (intro move_assign_object_same_block[where x=z and y=w]) (simp_all add: nth_append)
  then have step: "move_assign_object E m (Ptr (Some a) (length pre + length zs)) (Ptr (Some a) (Suc (length pre + length zs))) = Inr ?m1"
    unfolding up .
  have "move_backward_n E m (Ptr (Some a) (length pre)) (length (zs @ [z]))
     (Ptr (Some a) (Suc (length pre + length (zs @ [z])))) =
     move_backward_n E ?m1 (Ptr (Some a) (length pre)) (length zs)
          (Ptr (Some a) (Suc (length pre + length zs)))"
    using step by (simp add: ptr_minus_def)
  also have "\<dots> =
     Inr (?m1\<lparr>blocks := (blocks ?m1)(a \<mapsto> pre @ map Obj (shifted_right E zs (moved_from E z)) @ (Obj z # post))\<rparr>)"
    by (rule snoc.IH) simp
  also have "\<dots> = Inr (m\<lparr>blocks := (blocks m)(a \<mapsto> pre @ map Obj (shifted_right E (zs @ [z]) w) @ post)\<rparr>)"
    by (cases zs) (simp_all add: shifted_right_def)
  finally show ?case .
qed

section \<open>Erase\<close>

lemma unat_of_nat_size: "i < 2 ^ 64 \<Longrightarrow> unat (of_nat i :: size_t) = i"
  by (simp add: unat_of_nat)

lemma unat_less_size: "unat (s :: size_t) < 2 ^ 64"
  using unsigned_less[of s, where 'a=nat] by simp

lemma block_of_split:
  "i < length xs \<Longrightarrow>
   block_of xs c = map Obj (take i xs) @ map Obj (xs ! i # drop (Suc i) xs) @ replicate (c - length xs) Raw"
proof -
  assume "i < length xs"
  then have "xs = take i xs @ xs ! i # drop (Suc i) xs" by (rule id_take_nth_drop)
  then have "map Obj xs = map Obj (take i xs @ xs ! i # drop (Suc i) xs)" by (rule arg_cong)
  then show ?thesis by (simp add: block_of_def)
qed

lemma block_of_append:
  "block_of (xs @ ys) c = map Obj xs @ map Obj ys @ replicate (c - length (xs @ ys)) Raw"
  by (simp add: block_of_def)

lemma butlast_shifted_left [simp]: "butlast (shifted_left E y ys) = ys"
  by (simp add: shifted_left_def)

lemma length_shifted_left [simp]: "length (shifted_left E y ys) = Suc (length ys)"
  by (simp add: shifted_left_def)

lemma shifted_left_not_Nil [simp]: "shifted_left E y ys \<noteq> []"
  by (simp add: shifted_left_def)

lemma holds_block_update:
  "holds m v xs \<Longrightarrow> buffer_m (data_m v) = Some a \<Longrightarrow> length ys = length xs \<Longrightarrow>
   holds (m\<lparr>blocks := (blocks m)(a \<mapsto> block_of ys (unat (capacity_m (data_m v))))\<rparr>) v ys"
  by (simp add: holds_def)

lemma Erase_holds:
  assumes "holds m v xs" "i < length xs"
  shows "\<exists>m' v'. Erase E m v (Ptr (buffer_m (data_m v)) i) =
        Inr ((m', v'), Ptr (buffer_m (data_m v')) i) \<and>
     holds m' v' (take i xs @ drop (Suc i) xs) \<and> data_m v' = data_m v \<and>
     size_m v' = size_m v - 1 \<and> frame (buffer_m (data_m v)) m m'"
proof -
  let ?c = "unat (capacity_m (data_m v))"
  let ?ys = "drop (Suc i) xs"
  let ?zs = "take i xs @ shifted_left E (xs ! i) ?ys"
  from assms have len: "unat (size_m v) = length xs" and le: "length xs \<le> ?c"
    by (simp_all add: holds_lengthD holds_leD)
  from assms(2) le have "0 < ?c" by simp
  then have "capacity_m (data_m v) \<noteq> 0" by (simp add: unat_gt_0)
  with assms(1) obtain a where a: "buffer_m (data_m v) = Some a"
    by (cases "buffer_m (data_m v)") (auto simp: holds_def)
  from holds_SomeD[OF assms(1) a] have blk: "blocks m a = Some (block_of xs ?c)" by simp
  have i64: "i < 2 ^ 64" using assms(2) len unat_less_size[of "size_m v"] by simp
  have idx: "unat (of_nat i :: size_t) = i" using i64 by (rule unat_of_nat_size)
  have sz: "size_m v \<le> capacity_m (data_m v)" using assms(1) by (simp add: holds_def)
  let ?pre = "map Obj (take i xs)"
  have blk': "blocks m a = Some (?pre @ map Obj (xs ! i # ?ys) @ replicate (?c - length xs) Raw)"
    using blk block_of_split[OF assms(2), of ?c] by simp
  have lp: "length ?pre = i" using assms(2) by simp
  let ?m1 = "m\<lparr>blocks := (blocks m)(a \<mapsto> block_of ?zs ?c)\<rparr>"
  have "move_forward E m (Ptr (Some a) (Suc (length ?pre))) (length ?ys) (Ptr (Some a) (length ?pre)) =
     Inr (m\<lparr>blocks := (blocks m)(a \<mapsto> ?pre @ map Obj (shifted_left E (xs ! i) ?ys) @ replicate (?c - length xs) Raw)\<rparr>)"
    using blk' by (rule move_forward_shift)
  then have mv: "move_forward E m (Ptr (Some a) (Suc i)) (length xs - Suc i) (Ptr (Some a) i) = Inr ?m1"
    using assms(2) unfolding lp by (simp add: block_of_append)
  have lz: "length ?zs = length xs" using assms(2) by simp
  have h1: "holds ?m1 v ?zs" using assms(1) a lz by (rule holds_block_update)
  have nz: "?zs \<noteq> []" by simp
  from PopBack_holds[OF h1 nz] obtain m' v' where
    p: "PopBack ?m1 v = Inr (m', v')" and h': "holds m' v' (butlast ?zs)"
    and d: "data_m v' = data_m v" and s: "size_m v' = size_m v - 1"
    and f: "frame (buffer_m (data_m v)) ?m1 m'" by blast
  have bz: "butlast ?zs = take i xs @ drop (Suc i) xs" by (simp add: butlast_append)
  have fr: "frame (buffer_m (data_m v)) m m'" using f a by (auto simp: frame_def)
  have "Erase E m v (Ptr (buffer_m (data_m v)) i) = Inr ((m', v'), Ptr (buffer_m (data_m v')) i)"
    using a len sz idx mv p d assms(2)
    by (simp add: Erase_def std_move_def raw_defs vector_defs Let_def)
  with h' bz d s fr show ?thesis by auto
qed

section \<open>Emplace\<close>

lemma residue_append [simp]: "residue E (xs @ ys) = residue E xs @ residue E ys"
  by (simp add: residue_def)

lemma relocation_log_append [simp]:
  "relocation_log E (xs @ ys) = relocation_log E xs @ relocation_log E ys"
  by (simp add: relocation_log_def)

lemma block_of_full [simp]: "block_of xs (length xs) = map Obj xs"
  by (simp add: block_of_def)

lemma relocate_segments:
  assumes "blocks m a = Some (pre @ map Obj ys @ post)" "blocks m b = Some (pre' @ hole @ post')"
    "length hole = length ys" "a \<noteq> b"
  shows "(if is_nothrow_move_constructible E \<or> \<not> is_copy_constructible E
          then uninitialized_move_n E m (Ptr (Some a) (length pre)) (length ys) (Ptr (Some b) (length pre'))
          else uninitialized_copy_n m (Ptr (Some a) (length pre)) (length ys) (Ptr (Some b) (length pre'))) =
     Inr (m\<lparr>blocks := (blocks m)
              (a \<mapsto> pre @ map Obj (residue E ys) @ post, b \<mapsto> pre' @ map Obj ys @ post'),
            ctor_log := ctor_log m @ relocation_log E ys\<rparr>)"
proof -
  have tk: "take (length ys) (drop (length pre) (pre @ map Obj ys @ post)) = map Obj ys" by simp
  have "(if is_nothrow_move_constructible E \<or> \<not> is_copy_constructible E
          then uninitialized_move_n E m (Ptr (Some a) (length pre)) (length ys) (Ptr (Some b) (length pre'))
          else uninitialized_copy_n m (Ptr (Some a) (length pre)) (length ys) (Ptr (Some b) (length pre'))) =
     Inr (m\<lparr>blocks := (blocks m)
              (a \<mapsto> take (length pre) (pre @ map Obj ys @ post) @ map Obj (residue E ys) @
                     drop (length pre + length ys) (pre @ map Obj ys @ post),
               b \<mapsto> take (length pre') (pre' @ hole @ post') @ map Obj ys @
                     drop (length pre' + length ys) (pre' @ hole @ post')),
            ctor_log := ctor_log m @ relocation_log E ys\<rparr>)"
    using assms(3) by (intro relocate_blocks[OF assms(1,2,4) _ _ tk]) simp_all
  also have "\<dots> = Inr (m\<lparr>blocks := (blocks m)
              (a \<mapsto> pre @ map Obj (residue E ys) @ post, b \<mapsto> pre' @ map Obj ys @ post'),
            ctor_log := ctor_log m @ relocation_log E ys\<rparr>)"
    using assms(3) by simp
  finally show ?thesis .
qed

lemma Emplace_grow_fields:
  assumes h: "holds m \<lparr>data_m = \<lparr>buffer_m = buf, capacity_m = s\<rparr>, size_m = s\<rparr> xs"
    and n: "n = (if s = 0 then 1 else s * 2)" and sn: "s < n" and i: "i < length xs"
  shows "Emplace E m \<lparr>data_m = \<lparr>buffer_m = buf, capacity_m = s\<rparr>, size_m = s\<rparr> (Ptr buf i) (Value x) =
     Return (m\<lparr>blocks := release buf
                 ((blocks m)(brk m \<mapsto> block_of (take i xs @ x # drop i xs) (unat n))),
               brk := Suc (brk m),
               ctor_log := ctor_log m @ Constructed x # relocation_log E xs\<rparr>,
             \<lparr>data_m = \<lparr>buffer_m = Some (brk m), capacity_m = n\<rparr>, size_m = s + 1\<rparr>)
       (Ptr (Some (brk m)) i)"
proof -
  let ?v = "\<lparr>data_m = \<lparr>buffer_m = buf, capacity_m = s\<rparr>, size_m = s\<rparr>"
  define v where "v = ?v"
  have n': "n = (if size_m v = 0 then 1 else size_m v * 2)" by (simp add: v_def n)
  from sn have n0: "0 < n" by (simp add: word_less_nonzero word_gt_0)
  have len: "unat s = length xs" using h by (simp add: holds_def)
  have ln: "length xs < unat n" using sn len by (simp add: word_less_nat_alt)
  have le: "s \<le> n" using sn by simp
  from i len have "0 < unat s" by (cases xs) simp_all
  then have s0: "s \<noteq> 0" by (simp add: unat_gt_0)
  with h obtain a where buf: "buf = Some a" by (cases buf) (auto simp: holds_def)
  from holds_SomeD[OF h] buf len have a: "a < brk m" and blk: "blocks m a = Some (map Obj xs)"
    by simp_all
  have ne: "a \<noteq> brk m" using a by simp
  have i64: "i < 2 ^ 64" using i len unat_less_size[of s] by simp
  have idx: "unat (of_nat i :: size_t) = i" using i64 by (rule unat_of_nat_size)
  have "(of_nat i :: size_t) \<le> s" using idx len i by (simp add: word_le_nat_alt)
  then have sub: "unat (s - of_nat i) = length xs - i" using idx len by (simp add: unat_sub)
  let ?m1 = "m\<lparr>blocks := (blocks m)(brk m \<mapsto> replicate (unat n) Raw), brk := Suc (brk m)\<rparr>"
  have rs: "Reserve E m Vector_ctor n =
      Inr (?m1, \<lparr>data_m = \<lparr>buffer_m = Some (brk m), capacity_m = n\<rparr>, size_m = 0\<rparr>)"
    using Reserve_grow[OF holds_Vector_ctor, where n=n and m=m and E=E] n0
    by (simp add: Vector_ctor_def RawMemory_default_def release_def)
  let ?hole1 = "replicate i (Raw :: 'a slot)"
  let ?post1 = "Obj x # replicate (unat n - Suc i) Raw"
  let ?m2 = "m\<lparr>blocks := (blocks m)(brk m \<mapsto> ?hole1 @ ?post1), brk := Suc (brk m),
               ctor_log := ctor_log m @ [Constructed x]\<rparr>"
  have ct: "andthen (construct_at ?m1 (Ptr (Some (brk m)) i) x) (record_event (Constructed x))
      = Inr ?m2"
    using ln i by (simp add: construct_at_def store_block record_event_def replicate_update)
  have src1: "blocks ?m2 a = Some ([] @ map Obj (take i xs) @ map Obj (drop i xs))"
    using blk ne by (simp flip: map_append)
  have dst1: "blocks ?m2 (brk m) = Some ([] @ ?hole1 @ ?post1)" by simp
  let ?m3 = "m\<lparr>blocks := (blocks m)
              (a \<mapsto> map Obj (residue E (take i xs)) @ map Obj (drop i xs),
               brk m \<mapsto> map Obj (take i xs) @ ?post1),
            brk := Suc (brk m),
            ctor_log := ctor_log m @ Constructed x # relocation_log E (take i xs)\<rparr>"
  have mg1: "(if is_nothrow_move_constructible E \<or> \<not> is_copy_constructible E
          then uninitialized_move_n E ?m2 (Ptr (Some a) 0) i (Ptr (Some (brk m)) 0)
          else uninitialized_copy_n ?m2 (Ptr (Some a) 0) i (Ptr (Some (brk m)) 0)) = Inr ?m3"
    using relocate_segments[OF src1 dst1 _ ne, of E] i ne
    by (simp add: fun_upd_twist cong: if_cong split del: if_split)
  let ?hole2 = "replicate (length xs - i) (Raw :: 'a slot)"
  let ?post2 = "replicate (unat n - Suc (length xs)) (Raw :: 'a slot)"
  have rp: "replicate (unat n - Suc i) (Raw :: 'a slot) = ?hole2 @ ?post2"
    using i ln by (simp flip: replicate_add)
  have src2: "blocks ?m3 a = Some (map Obj (residue E (take i xs)) @ map Obj (drop i xs) @ [])"
    using ne by simp
  have dst2: "blocks ?m3 (brk m) = Some ((map Obj (take i xs) @ [Obj x]) @ ?hole2 @ ?post2)"
    using rp by simp
  let ?m4 = "m\<lparr>blocks := (blocks m)
              (a \<mapsto> map Obj (residue E xs),
               brk m \<mapsto> block_of (take i xs @ x # drop i xs) (unat n)),
            brk := Suc (brk m),
            ctor_log := ctor_log m @ Constructed x # relocation_log E xs\<rparr>"
  have rl: "relocation_log E (take i xs) @ relocation_log E (drop i xs) = relocation_log E xs"
    by (simp flip: relocation_log_append)
  have rr: "map Obj (residue E (take i xs)) @ map Obj (residue E (drop i xs)) = map Obj (residue E xs)"
    by (simp flip: residue_append map_append)
  have "(if is_nothrow_move_constructible E \<or> \<not> is_copy_constructible E
          then uninitialized_move_n E ?m3 (Ptr (Some a) (length (map Obj (residue E (take i xs)))))
                 (length (drop i xs)) (Ptr (Some (brk m)) (length (map Obj (take i xs) @ [Obj x])))
          else uninitialized_copy_n ?m3 (Ptr (Some a) (length (map Obj (residue E (take i xs)))))
                 (length (drop i xs)) (Ptr (Some (brk m)) (length (map Obj (take i xs) @ [Obj x])))) =
      Inr (?m3\<lparr>blocks := (blocks ?m3)
              (a \<mapsto> map Obj (residue E (take i xs)) @ map Obj (residue E (drop i xs)) @ [],
               brk m \<mapsto> (map Obj (take i xs) @ [Obj x]) @ map Obj (drop i xs) @ ?post2),
            ctor_log := ctor_log ?m3 @ relocation_log E (drop i xs)\<rparr>)"
    by (rule relocate_segments[OF src2 dst2 _ ne]) simp
  also have "\<dots> = Inr ?m4"
    using i ne rl by (simp add: block_of_def fun_upd_twist rr)
  finally have mg2: "(if is_nothrow_move_constructible E \<or> \<not> is_copy_constructible E
          then uninitialized_move_n E ?m3 (Ptr (Some a) i) (length xs - i) (Ptr (Some (brk m)) (Suc i))
          else uninitialized_copy_n ?m3 (Ptr (Some a) i) (length xs - i) (Ptr (Some (brk m)) (Suc i))) =
      Inr ?m4"
    using i by (simp cong: if_cong split del: if_split)
  have mg: "(if is_nothrow_move_constructible E \<or> \<not> is_copy_constructible E
          then andthen (uninitialized_move_n E ?m2 (Ptr (Some a) 0) i (Ptr (Some (brk m)) 0))
                 (\<lambda>m'. uninitialized_move_n E m' (Ptr (Some a) i) (length xs - i) (Ptr (Some (brk m)) (Suc i)))
          else andthen (uninitialized_copy_n ?m2 (Ptr (Some a) 0) i (Ptr (Some (brk m)) 0))
                 (\<lambda>m'. uninitialized_copy_n m' (Ptr (Some a) i) (length xs - i) (Ptr (Some (brk m)) (Suc i)))) =
      Inr ?m4"
  proof (cases "is_nothrow_move_constructible E \<or> \<not> is_copy_constructible E")
    case True
    with mg1 mg2 show ?thesis by simp
  next
    case False
    with mg1 mg2 show ?thesis by simp
  qed
  have dt: "Vector_dtor ?m4 ?v = Inr (?m4\<lparr>blocks := (blocks ?m4)(a := None)\<rparr>)"
    using buf ne len by (intro Vector_dtor_block[where A="map Obj (residue E xs)"]) simp_all
  have "Emplace E m v (Ptr buf i) (Value x) =
     Return (m\<lparr>blocks := release buf
                 ((blocks m)(brk m \<mapsto> block_of (take i xs @ x # drop i xs) (unat n))),
               brk := Suc (brk m),
               ctor_log := ctor_log m @ Constructed x # relocation_log E xs\<rparr>,
             \<lparr>data_m = \<lparr>buffer_m = Some (brk m), capacity_m = n\<rparr>, size_m = s + 1\<rparr>)
       (Ptr (Some (brk m)) i)"
    unfolding Emplace_def n' [symmetric]
    unfolding v_def
    using buf rs ct mg dt le len ne idx sub i
    by (simp add: Capacity_def raw_defs vector_defs release_def Let_def cong: if_cong
        split del: if_split)
  then show ?thesis by (simp add: v_def)
qed

lemma shifted_right_Cons: "\<exists>z. shifted_right E ys w = z # ys"
  by (simp add: shifted_right_def)

lemma split_at_last:
  assumes "i < length xs"
  shows "xs = take i xs @ drop i (butlast xs) @ [last xs]"
    and "length (drop i (butlast xs)) = length xs - Suc i"
proof -
  from assms have ne: "xs \<noteq> []" by auto
  then have x: "xs = butlast xs @ [last xs]" by simp
  have "take i xs = take i (butlast xs)" using assms by (simp add: take_butlast)
  then have "take i xs @ drop i (butlast xs) = butlast xs" by simp
  with x show "xs = take i xs @ drop i (butlast xs) @ [last xs]" by (metis append_assoc)
  show "length (drop i (butlast xs)) = length xs - Suc i" by simp
qed

lemma update_two:
  "(P @ u # w # R)[length P := u', Suc (length P) := w'] = P @ u' # w' # R"
  by (simp add: list_update_append)

lemma Emplace_in_place:
  assumes h: "holds m v xs" and lt: "size_m v \<noteq> capacity_m (data_m v)" and i: "i < length xs"
  shows "\<exists>a. buffer_m (data_m v) = Some a \<and>
     Emplace E m v (Ptr (Some a) i) (Value x) =
       Return (m\<lparr>blocks := (blocks m)
                   (a \<mapsto> block_of (take i xs @ x # drop i xs) (unat (capacity_m (data_m v))),
                    brk m \<mapsto> [Raw]),
                 brk := Suc (brk m),
                 ctor_log := ctor_log m @ [Constructed x, MoveConstructed (last xs)]\<rparr>,
               v\<lparr>size_m := size_m v + 1\<rparr>) (Ptr (Some a) i)"
proof -
  let ?c = "unat (capacity_m (data_m v))"
  let ?mid = "drop i (butlast xs)"
  let ?lst = "last xs"
  let ?pre = "map Obj (take i xs) :: 'a slot list"
  let ?R = "replicate (?c - Suc (length xs)) (Raw :: 'a slot)"
  from h lt have slt: "size_m v < capacity_m (data_m v)" by (auto simp: holds_def)
  then have "capacity_m (data_m v) \<noteq> 0" by (rule word_less_nonzero)
  with h obtain a where a: "buffer_m (data_m v) = Some a"
    by (cases "buffer_m (data_m v)") (auto simp: holds_def)
  from holds_SomeD[OF h a] have ab: "a < brk m" and blk: "blocks m a = Some (block_of xs ?c)"
    by simp_all
  have ne: "a \<noteq> brk m" using ab by simp
  have len: "unat (size_m v) = length xs" using h by (rule holds_lengthD)
  have lc: "length xs < ?c" using slt len by (simp add: word_less_nat_alt)
  have sz: "size_m v \<le> capacity_m (data_m v)" using slt by simp
  have i64: "i < 2 ^ 64" using i len unat_less_size[of "size_m v"] by simp
  have idx: "unat (of_nat i :: size_t) = i" using i64 by (rule unat_of_nat_size)
  note sp = split_at_last[OF i]
  have lp: "length ?pre = i" using i by simp
  have lm: "Suc (i + (length xs - Suc i)) = length xs" using i by simp
  have rR: "replicate (?c - length xs) (Raw :: 'a slot) = Raw # ?R"
    using lc by (simp add: Suc_diff_Suc flip: replicate_Suc)
  have "block_of xs ?c = map Obj (take i xs @ ?mid @ [?lst]) @ replicate (?c - length xs) Raw"
    using sp(1) by (simp add: block_of_def)
  then have A: "block_of xs ?c = (?pre @ map Obj ?mid) @ Obj ?lst # Raw # ?R"
    using rR by simp
  have lP: "length (?pre @ map Obj ?mid) = length xs - Suc 0" using i by simp
  have pos: "Suc (length xs - Suc 0) = length xs" using i by (cases xs) simp_all
  let ?m1 = "m\<lparr>blocks := (blocks m)(brk m \<mapsto> [Obj x]), brk := Suc (brk m),
               ctor_log := ctor_log m @ [Constructed x]\<rparr>"
  have no: "new_object m (Value x) = (?m1, Some (Ptr (Some (brk m)) 0))"
    by (simp add: new_object_def)
  have blk1: "blocks ?m1 a = Some ((?pre @ map Obj ?mid) @ Obj ?lst # Raw # ?R)"
    using blk A ne by simp
  let ?A2 = "?pre @ map Obj (?mid @ [moved_from E ?lst]) @ (Obj ?lst # ?R)"
  let ?m2 = "m\<lparr>blocks := (blocks m)(brk m \<mapsto> [Obj x], a \<mapsto> ?A2), brk := Suc (brk m),
               ctor_log := ctor_log m @ [Constructed x, MoveConstructed ?lst]\<rparr>"
  have "move_construct E ?m1 (Ptr (Some a) (length (?pre @ map Obj ?mid)))
          (Ptr (Some a) (Suc (length (?pre @ map Obj ?mid)))) =
      Inr (?m1\<lparr>blocks := (blocks ?m1)(a \<mapsto> ((?pre @ map Obj ?mid) @ Obj ?lst # Raw # ?R)
                [length (?pre @ map Obj ?mid) := Obj (moved_from E ?lst),
                 Suc (length (?pre @ map Obj ?mid)) := Obj ?lst]),
            ctor_log := ctor_log ?m1 @ [MoveConstructed ?lst]\<rparr>)"
    by (rule move_construct_same_block[OF blk1 _ _ nth_append_length]) simp_all
  also have "\<dots> = Inr ?m2"
    by (simp only: update_two) simp
  finally have mc: "move_construct E ?m1 (Ptr (Some a) (length xs - Suc 0)) (Ptr (Some a) (length xs)) = Inr ?m2"
    unfolding lP pos .
  have blk2: "blocks ?m2 a = Some (?pre @ map Obj (?mid @ [moved_from E ?lst]) @ (Obj ?lst # ?R))"
    by simp
  obtain z where sr: "shifted_right E ?mid (moved_from E ?lst) = z # ?mid"
    using shifted_right_Cons[of E ?mid "moved_from E ?lst"] by (elim exE)
  let ?A3 = "?pre @ Obj z # map Obj ?mid @ (Obj ?lst # ?R)"
  let ?m3 = "m\<lparr>blocks := (blocks m)(brk m \<mapsto> [Obj x], a \<mapsto> ?A3), brk := Suc (brk m),
               ctor_log := ctor_log m @ [Constructed x, MoveConstructed ?lst]\<rparr>"
  have "move_backward_n E ?m2 (Ptr (Some a) (length ?pre)) (length ?mid)
     (Ptr (Some a) (Suc (length ?pre + length ?mid))) =
     Inr (?m2\<lparr>blocks := (blocks ?m2)(a \<mapsto> ?pre @ map Obj (shifted_right E ?mid (moved_from E ?lst)) @ (Obj ?lst # ?R))\<rparr>)"
    using blk2 by (rule move_backward_shift)
  also have "\<dots> = Inr ?m3" unfolding sr by simp
  finally have mb: "move_backward_n E ?m2 (Ptr (Some a) i) (length xs - Suc i) (Ptr (Some a) (length xs)) = Inr ?m3"
    unfolding lp sp(2) lm .
  have blk3a: "blocks ?m3 a = Some ?A3" by simp
  have blk3t: "blocks ?m3 (brk m) = Some [Obj x]" using ne by simp
  let ?m4 = "m\<lparr>blocks := (blocks m)(brk m \<mapsto> [Obj (moved_from E x)],
                 a \<mapsto> block_of (take i xs @ x # drop i xs) ?c), brk := Suc (brk m),
               ctor_log := ctor_log m @ [Constructed x, MoveConstructed ?lst]\<rparr>"
  have dx: "drop i xs = ?mid @ [?lst]" using sp(1) i
    by (metis append_eq_conv_conj length_take min.absorb2 less_imp_le)
  have "move_assign_object E ?m3 (Ptr (Some (brk m)) 0) (Ptr (Some a) (length ?pre)) =
      Inr (?m3\<lparr>blocks := (blocks ?m3)(brk m \<mapsto> [Obj x][0 := Obj (moved_from E x)],
             a \<mapsto> ?A3[length ?pre := Obj x])\<rparr>)"
    using ne by (intro move_assign_object_blocks[OF blk3t _ _ blk3a _ nth_append_length]) simp_all
  also have "\<dots> = Inr (?m3\<lparr>blocks := (blocks ?m3)(brk m \<mapsto> [Obj (moved_from E x)],
             a \<mapsto> ?pre @ Obj x # map Obj ?mid @ (Obj ?lst # ?R))\<rparr>)"
    by (simp only: list_update_length) simp
  also have "\<dots> = Inr ?m4"
    using i by (simp add: block_of_def dx pos)
  finally have ma: "move_assign_object E ?m3 (Ptr (Some (brk m)) 0) (Ptr (Some a) i) = Inr ?m4"
    unfolding lp .
  have ds: "destroy_at ?m4 (Ptr (Some (brk m)) 0) =
      Inr (?m4\<lparr>blocks := (blocks ?m4)(brk m \<mapsto> [Obj (moved_from E x)][0 := Raw])\<rparr>)"
    using ne by (intro destroy_at_block) simp_all
  have "Emplace E m v (Ptr (Some a) i) (Value x) =
       Return (m\<lparr>blocks := (blocks m)
                   (a \<mapsto> block_of (take i xs @ x # drop i xs) ?c, brk m \<mapsto> [Raw]),
                 brk := Suc (brk m),
                 ctor_log := ctor_log m @ [Constructed x, MoveConstructed (last xs)]\<rparr>,
               v\<lparr>size_m := size_m v + 1\<rparr>) (Ptr (Some a) i)"
    using a len sz lt idx i no mc mb ma ds ne
    by (simp add: Emplace_def Capacity_def raw_defs vector_defs std_move_def std_move_backward_def
        ptr_minus_def ptr_diff_def loops_One Let_def fun_upd_twist)
  with a show ?thesis by simp
qed

lemma Emplace_at_end:
  assumes "holds m v xs" "unat (size_m v) < 2 ^ 63"
  shows "\<exists>m' v'. Emplace E m v (Ptr (buffer_m (data_m v)) (length xs)) (Value x) =
        Return (m', v') (Ptr (buffer_m (data_m v')) (length xs)) \<and>
     holds m' v' (xs @ [x]) \<and> size_m v' = size_m v + 1 \<and>
     frame (buffer_m (data_m v)) m m' \<and>
     (buffer_m (data_m v') = buffer_m (data_m v) \<or> buffer_m (data_m v') = Some (brk m)) \<and>
     (size_m v = capacity_m (data_m v) \<longrightarrow>
        ctor_log m' = ctor_log m @ Constructed x # relocation_log E xs)"
proof -
  from EmplaceBack_holds[OF assms, of E x] obtain m' v' where
    e: "EmplaceBack E m v (Value x) =
        Return (m', v') (Reference (Ptr (buffer_m (data_m v')) (length xs)))"
    and r: "holds m' v' (xs @ [x])" "size_m v' = size_m v + 1"
      "frame (buffer_m (data_m v)) m m'"
      "buffer_m (data_m v') = buffer_m (data_m v) \<or> buffer_m (data_m v') = Some (brk m)"
      "size_m v = capacity_m (data_m v) \<longrightarrow>
        ctor_log m' = ctor_log m @ Constructed x # relocation_log E xs"
    by blast
  have len: "unat (size_m v) = length xs" using assms(1) by (rule holds_lengthD)
  have sz: "size_m v \<le> capacity_m (data_m v)" using assms(1) by (simp add: holds_def)
  have "length xs < 2 ^ 64" using len unat_less_size[of "size_m v"] by simp
  then have idx: "unat (of_nat (length xs) :: size_t) = length xs" by (rule unat_of_nat_size)
  have "Emplace E m v (Ptr (buffer_m (data_m v)) (length xs)) (Value x) =
        Return (m', v') (Ptr (buffer_m (data_m v')) (length xs))"
    using e len sz idx by (simp add: Emplace_def raw_defs vector_defs Let_def)
  with r show ?thesis by blast
qed

lemma Emplace_holds:
  assumes h: "holds m v xs" and i: "i \<le> length xs" and b: "length xs < 2 ^ 63"
  shows "\<exists>m' v'. Emplace E m v (Ptr (buffer_m (data_m v)) i) (Value x) =
        Return (m', v') (Ptr (buffer_m (data_m v')) i) \<and>
     holds m' v' (take i xs @ x # drop i xs) \<and> size_m v' = size_m v + 1 \<and>
     frame (buffer_m (data_m v)) m m' \<and>
     (buffer_m (data_m v') = buffer_m (data_m v) \<or> buffer_m (data_m v') = Some (brk m)) \<and>
     (size_m v = capacity_m (data_m v) \<longrightarrow>
        ctor_log m' = ctor_log m @ Constructed x # relocation_log E xs)"
proof -
  have len: "unat (size_m v) = length xs" using h by (rule holds_lengthD)
  with b have b': "unat (size_m v) < 2 ^ 63" by simp
  consider (last) "i = length xs" | (grow) "i < length xs" "size_m v = capacity_m (data_m v)"
    | (place) "i < length xs" "size_m v \<noteq> capacity_m (data_m v)"
    using i by fastforce
  then show ?thesis
  proof cases
    case last
    with Emplace_at_end[OF h b', of E x] show ?thesis by simp
  next
    case grow
    let ?n = "if size_m v = 0 then 1 else size_m v * 2"
    let ?ys = "take i xs @ x # drop i xs"
    obtain buf c s where v: "v = \<lparr>data_m = \<lparr>buffer_m = buf, capacity_m = c\<rparr>, size_m = s\<rparr>"
      by (rule Vector_cases)
    with grow(2) have c: "c = s" by simp
    note g = grow_capacity[OF b']
    have sn: "s < (if s = 0 then 1 else s * 2)" using g(2) unfolding v by (simp cong: if_cong)
    have n0: "?n \<noteq> 0" using g(2) by (rule word_less_nonzero)
    have s1: "size_m v + 1 \<le> ?n" using g(2) by (rule inc_le)
    have u: "unat (size_m v + 1) = length ?ys" using unat_succ[OF g(2)] len grow(1) by simp
    let ?m' = "m\<lparr>blocks := release buf ((blocks m)(brk m \<mapsto> block_of ?ys (unat ?n))),
               brk := Suc (brk m),
               ctor_log := ctor_log m @ Constructed x # relocation_log E xs\<rparr>"
    have e: "Emplace E m v (Ptr (buffer_m (data_m v)) i) (Value x) =
       Return (?m', \<lparr>data_m = \<lparr>buffer_m = Some (brk m), capacity_m = ?n\<rparr>, size_m = size_m v + 1\<rparr>)
         (Ptr (Some (brk m)) i)"
      using Emplace_grow_fields[OF h[unfolded v c] refl sn grow(1), of E x] unfolding v c by simp
    have fr: "frame (buffer_m (data_m v)) m ?m'"
      unfolding v by (auto simp: frame_def release_def split: option.splits)
    have bl: "blocks ?m' (brk m) = Some (block_of ?ys (unat ?n))"
      using h unfolding v by (auto simp: release_def holds_def split: option.splits)
    have "holds ?m' \<lparr>data_m = \<lparr>buffer_m = Some (brk m), capacity_m = ?n\<rparr>, size_m = size_m v + 1\<rparr> ?ys"
      using bl n0 u s1 by (intro holdsI) simp_all
    with e fr grow(2) show ?thesis by simp
  next
    case place
    let ?ys = "take i xs @ x # drop i xs"
    from Emplace_in_place[OF h place(2) place(1), of E x] obtain a where
      a: "buffer_m (data_m v) = Some a" and
      e: "Emplace E m v (Ptr (Some a) i) (Value x) =
       Return (m\<lparr>blocks := (blocks m)
                   (a \<mapsto> block_of ?ys (unat (capacity_m (data_m v))), brk m \<mapsto> [Raw]),
                 brk := Suc (brk m),
                 ctor_log := ctor_log m @ [Constructed x, MoveConstructed (last xs)]\<rparr>,
               v\<lparr>size_m := size_m v + 1\<rparr>) (Ptr (Some a) i)" by blast
    from h place(2) have lt: "size_m v < capacity_m (data_m v)" by (auto simp: holds_def)
    from holds_SomeD[OF h a] have ab: "a < brk m" by simp
    have "holds (m\<lparr>blocks := (blocks m)
                   (a \<mapsto> block_of ?ys (unat (capacity_m (data_m v))), brk m \<mapsto> [Raw]),
                 brk := Suc (brk m),
                 ctor_log := ctor_log m @ [Constructed x, MoveConstructed (last xs)]\<rparr>)
               (v\<lparr>size_m := size_m v + 1\<rparr>) ?ys"
      using h a lt ab place(1) by (simp add: holds_def unat_succ[OF lt] inc_le)
    with e a place(2) show ?thesis by (simp add: frame_def)
  qed
qed

section \<open>Well-formed states\<close>

lemma frame_refl [simp]: "frame buf m m"
  by (simp add: frame_def)

lemma frame_holds:
  "holds m v xs \<Longrightarrow> frame buf m m' \<Longrightarrow>
   buffer_m (data_m v) = None \<or> buffer_m (data_m v) \<noteq> buf \<Longrightarrow> holds m' v xs"
  by (auto simp: holds_def frame_def split: option.splits)

lemma frame_trans:
  "frame buf m m1 \<Longrightarrow> frame buf' m1 m2 \<Longrightarrow>
   buf' = buf \<or> buf' = None \<or> (\<exists>b. buf' = Some b \<and> brk m \<le> b) \<Longrightarrow> frame buf m m2"
  by (auto simp: frame_def)

lemma frame_None: "frame None m m' \<Longrightarrow> frame buf m m'"
  by (auto simp: frame_def)

lemma well_formed_holdsD:
  "well_formed st \<Longrightarrow> vectors st r = Some v \<Longrightarrow> \<exists>xs. holds (mem st) v xs"
  unfolding well_formed_def by blast

lemma well_formed_distinctD:
  "well_formed st \<Longrightarrow> vectors st r = Some v \<Longrightarrow> vectors st r' = Some v' \<Longrightarrow> r \<noteq> r' \<Longrightarrow>
   buffer_m (data_m v) = Some a \<Longrightarrow> buffer_m (data_m v') \<noteq> Some a"
  unfolding well_formed_def by (metis option.distinct(1))

lemma well_formed_put:
  assumes wf: "well_formed st" and h: "holds m' v' ys" and fr: "frame buf (mem st) m'"
    and own: "\<And>r' w. r' \<noteq> r \<Longrightarrow> vectors st r' = Some w \<Longrightarrow>
       buffer_m (data_m w) = None \<or>
       (buffer_m (data_m w) \<noteq> buf \<and> buffer_m (data_m w) \<noteq> buffer_m (data_m v'))"
  shows "well_formed (put st r (m', v'))"
  unfolding well_formed_def
proof (intro conjI allI impI)
  fix q w assume "vectors (put st r (m', v')) q = Some w"
  then consider "q = r" "w = v'" | "q \<noteq> r" "vectors st q = Some w"
    by (auto simp: put_def split: if_splits)
  then show "\<exists>xs. holds (mem (put st r (m', v'))) w xs"
  proof cases
    case 1
    with h show ?thesis by (auto simp: put_def)
  next
    case 2
    from well_formed_holdsD[OF wf 2(2)] obtain zs where "holds (mem st) w zs" ..
    from frame_holds[OF this fr] own[OF 2] have "holds m' w zs" by auto
    then show ?thesis by (auto simp: put_def)
  qed
next
  fix q q' w w'
  assume a: "vectors (put st r (m', v')) q = Some w \<and> vectors (put st r (m', v')) q' = Some w' \<and>
     q \<noteq> q' \<and> buffer_m (data_m w) \<noteq> None"
  then consider "q = r" "w = v'" "q' \<noteq> r" "vectors st q' = Some w'"
    | "q' = r" "w' = v'" "q \<noteq> r" "vectors st q = Some w"
    | "q \<noteq> r" "q' \<noteq> r" "vectors st q = Some w" "vectors st q' = Some w'"
    by (auto simp: put_def split: if_splits)
  then show "buffer_m (data_m w) \<noteq> buffer_m (data_m w')"
  proof cases
    case 1
    with own[OF 1(3,4)] a show ?thesis by auto
  next
    case 2
    with own[OF 2(3,4)] a show ?thesis by auto
  next
    case 3
    with wf a show ?thesis unfolding well_formed_def by blast
  qed
qed

lemma well_formed_put_own:
  assumes wf: "well_formed st" and v: "vectors st r = Some v" and h: "holds m' v' ys"
    and fr: "frame (buffer_m (data_m v)) (mem st) m'"
    and b: "buffer_m (data_m v') = buffer_m (data_m v) \<or> buffer_m (data_m v') = None \<or>
       (\<exists>b. buffer_m (data_m v') = Some b \<and> brk (mem st) \<le> b)"
  shows "well_formed (put st r (m', v'))"
proof (rule well_formed_put[OF wf h fr])
  fix r' w assume r': "r' \<noteq> r" and w: "vectors st r' = Some w"
  show "buffer_m (data_m w) = None \<or>
       (buffer_m (data_m w) \<noteq> buffer_m (data_m v) \<and> buffer_m (data_m w) \<noteq> buffer_m (data_m v'))"
  proof (cases "buffer_m (data_m w)")
    case None then show ?thesis by simp
  next
    case (Some a)
    from well_formed_holdsD[OF wf w] obtain zs where "holds (mem st) w zs" ..
    from holds_SomeD[OF this Some] have lt: "a < brk (mem st)" by simp
    from well_formed_distinctD[OF wf w v r' Some] Some
    have "buffer_m (data_m w) \<noteq> buffer_m (data_m v)" by simp
    with b lt Some show ?thesis by auto
  qed
qed

lemma well_formed_put_fresh:
  assumes wf: "well_formed st" and h: "holds m' v' ys"
    and fr: "frame None (mem st) m'"
    and b: "buffer_m (data_m v') = None \<or> (\<exists>b. buffer_m (data_m v') = Some b \<and> brk (mem st) \<le> b)"
  shows "well_formed (put st r (m', v'))"
proof (rule well_formed_put[OF wf h fr])
  fix r' w assume r': "r' \<noteq> r" and w: "vectors st r' = Some w"
  show "buffer_m (data_m w) = None \<or>
       (buffer_m (data_m w) \<noteq> None \<and> buffer_m (data_m w) \<noteq> buffer_m (data_m v'))"
  proof (cases "buffer_m (data_m w)")
    case None then show ?thesis by simp
  next
    case (Some a)
    from well_formed_holdsD[OF wf w] obtain zs where "holds (mem st) w zs" ..
    from holds_SomeD[OF this Some] have lt: "a < brk (mem st)" by simp
    with b lt Some show ?thesis by auto
  qed
qed

lemma Vector_Swap_eq [simp]: "Vector_Swap v w = (w, v)"
  by (simp add: Vector_Swap_def RawMemory_Swap_def)

lemma well_formed_exchange:
  assumes wf: "well_formed st" and v: "vectors st r = Some v" and w: "vectors st q = Some w"
  shows "well_formed (st\<lparr>vectors := (vectors st)(r \<mapsto> w, q \<mapsto> v)\<rparr>)"
proof (cases "r = q")
  case True
  with v w have "(vectors st)(r \<mapsto> w, q \<mapsto> v) = vectors st" by auto
  with wf show ?thesis by simp
next
  case False
  let ?st = "st\<lparr>vectors := (vectors st)(r \<mapsto> w, q \<mapsto> v)\<rparr>"
  define pi where "pi = (\<lambda>x. if x = r then q else if x = q then r else x)"
  have look: "vectors ?st x = vectors st (pi x)" for x
    using v w False by (auto simp: pi_def)
  have inj: "pi x = pi y \<Longrightarrow> x = y" for x y
    using False by (auto simp: pi_def split: if_splits)
  show ?thesis
    unfolding well_formed_def
  proof (intro conjI allI impI)
    fix x u assume "vectors ?st x = Some u"
    then have "vectors st (pi x) = Some u" by (simp only: look)
    from well_formed_holdsD[OF wf this] show "\<exists>xs. holds (mem ?st) u xs" by simp
  next
    fix x y u u'
    assume a: "vectors ?st x = Some u \<and> vectors ?st y = Some u' \<and> x \<noteq> y \<and>
       buffer_m (data_m u) \<noteq> None"
    then have "vectors st (pi x) = Some u" "vectors st (pi y) = Some u'" "pi x \<noteq> pi y"
      using inj by (auto simp only: look)
    with wf a show "buffer_m (data_m u) \<noteq> buffer_m (data_m u')"
      unfolding well_formed_def by blast
  qed
qed

section \<open>Construction, destruction and Resize\<close>

lemma Vector_dtor_holds:
  assumes "holds m v xs"
  shows "Vector_dtor m v = Inr (m\<lparr>blocks := release (buffer_m (data_m v)) (blocks m)\<rparr>)"
proof (cases "buffer_m (data_m v)")
  case None
  from holds_NoneD[OF assms None] have "size_m v = 0" by simp
  from Vector_dtor_null[OF None this, of m] None show ?thesis by (simp add: release_def)
next
  case (Some a)
  from holds_SomeD[OF assms Some]
  have blk: "blocks m a = Some (block_of xs (unat (capacity_m (data_m v))))" by simp
  have len: "unat (size_m v) = length xs" using assms by (rule holds_lengthD)
  have le: "length xs \<le> unat (capacity_m (data_m v))" using assms by (rule holds_leD)
  have "Vector_dtor m v = Inr (m\<lparr>blocks := (blocks m)(a := None)\<rparr>)"
    by (rule Vector_dtor_block[OF Some blk]) (simp_all add: len le)
  with Some show ?thesis by (simp add: release_def)
qed

lemma store_frame:
  "store m (Ptr b j) s = Inr m' \<Longrightarrow>
   brk m' = brk m \<and> ctor_log m' = ctor_log m \<and> (\<forall>c. b \<noteq> Some c \<longrightarrow> blocks m' c = blocks m c)"
  by (auto simp: store_def split: option.splits if_splits)

lemma destroy_at_frame:
  "destroy_at m (Ptr b j) = Inr m' \<Longrightarrow>
   brk m' = brk m \<and> (\<forall>c. b \<noteq> Some c \<longrightarrow> blocks m' c = blocks m c)"
  unfolding destroy_at_def andthen_def
  by (auto split: sum.splits dest: store_frame)

lemma destroy_n_frame:
  "destroy_n m (Ptr b j) k = Inr m' \<Longrightarrow>
   brk m' = brk m \<and> (\<forall>c. b \<noteq> Some c \<longrightarrow> blocks m' c = blocks m c)"
proof (induction k arbitrary: m j)
  case 0
  then show ?case by simp
next
  case (Suc k)
  from Suc.prems obtain m1 where d: "destroy_at m (Ptr b j) = Inr m1"
    and r: "destroy_n m1 (Ptr b (j + 1)) k = Inr m'"
    by (cases "destroy_at m (Ptr b j)") simp_all
  from destroy_at_frame[OF d] Suc.IH[OF r] show ?case by simp
qed

lemma Vector_dtor_frame:
  assumes "Vector_dtor m v = Inr m'"
  shows "brk m' = brk m \<and> (\<forall>c. buffer_m (data_m v) \<noteq> Some c \<longrightarrow> blocks m' c = blocks m c)"
proof -
  from assms obtain m1 where
    d: "destroy_n m (Ptr (buffer_m (data_m v)) 0) (unat (size_m v)) = Inr m1"
    and r: "Deallocate m1 (buffer_m (data_m v)) = Inr m'"
    unfolding Vector_dtor_def RawMemory_GetAddress_def RawMemory_dtor_def
    by (cases "destroy_n m (Ptr (buffer_m (data_m v)) 0) (unat (size_m v))") simp_all
  from r have "brk m' = brk m1 \<and> (\<forall>c. buffer_m (data_m v) \<noteq> Some c \<longrightarrow> blocks m' c = blocks m1 c)"
    by (auto simp: Deallocate_def split: option.splits)
  with destroy_n_frame[OF d] show ?thesis by simp
qed

lemma block_of_replicate:
  "replicate n (Obj x) = block_of (replicate n x) n"
  by (simp add: block_of_def)

lemma Vector_ctor_n_holds:
  "\<exists>m' v'. Vector_ctor_n E m n = Inr (m', v') \<and>
     holds m' v' (replicate (unat n) (value_init E)) \<and> frame None m m' \<and>
     (buffer_m (data_m v') = None \<or> buffer_m (data_m v') = Some (brk m))"
proof (cases "n = 0")
  case True
  then show ?thesis by (simp add: Vector_ctor_n_def raw_defs holds_def)
next
  case False
  let ?m1 = "m\<lparr>blocks := (blocks m)(brk m \<mapsto> replicate (unat n) Raw), brk := Suc (brk m)\<rparr>"
  have blk: "blocks ?m1 (brk m) = Some (replicate (unat n) Raw)" by simp
  from uninitialized_value_construct_n_blocks[OF blk, of 0 "unat n" E]
  have u: "uninitialized_value_construct_n E ?m1 (Ptr (Some (brk m)) 0) (unat n) =
     Inr (?m1\<lparr>blocks := (blocks ?m1)(brk m \<mapsto> block_of (replicate (unat n) (value_init E)) (unat n)),
              ctor_log := ctor_log ?m1 @ replicate (unat n) (ValueConstructed (value_init E))\<rparr>)"
    by (simp add: block_of_def)
  have e: "Vector_ctor_n E m n =
     Inr (?m1\<lparr>blocks := (blocks ?m1)(brk m \<mapsto> block_of (replicate (unat n) (value_init E)) (unat n)),
              ctor_log := ctor_log ?m1 @ replicate (unat n) (ValueConstructed (value_init E))\<rparr>,
          \<lparr>data_m = \<lparr>buffer_m = Some (brk m), capacity_m = n\<rparr>, size_m = n\<rparr>)"
    unfolding Vector_ctor_n_def RawMemory_ctor_def Allocate_def RawMemory_GetAddress_def
    using False u by simp
  have "holds (?m1\<lparr>blocks := (blocks ?m1)(brk m \<mapsto> block_of (replicate (unat n) (value_init E)) (unat n)),
              ctor_log := ctor_log ?m1 @ replicate (unat n) (ValueConstructed (value_init E))\<rparr>)
          \<lparr>data_m = \<lparr>buffer_m = Some (brk m), capacity_m = n\<rparr>, size_m = n\<rparr>
          (replicate (unat n) (value_init E))"
    using False by (intro holdsI) simp_all
  with e show ?thesis by (simp add: frame_def)
qed

lemma Vector_copy_ctor_holds:
  assumes "holds m w xs"
  shows "\<exists>m' v'. Vector_copy_ctor m w = Inr (m', v') \<and> holds m' v' xs \<and> frame None m m' \<and>
     size_m v' = size_m w \<and> capacity_m (data_m v') = size_m w \<and>
     (buffer_m (data_m v') = None \<or> buffer_m (data_m v') = Some (brk m))"
proof (cases "size_m w = 0")
  case True
  with holds_lengthD[OF assms] have "xs = []" by simp
  with True show ?thesis by (simp add: Vector_copy_ctor_def raw_defs holds_def)
next
  case False
  have len: "unat (size_m w) = length xs" using assms by (rule holds_lengthD)
  have le: "length xs \<le> unat (capacity_m (data_m w))" using assms by (rule holds_leD)
  from False assms obtain a where a: "buffer_m (data_m w) = Some a"
    by (cases "buffer_m (data_m w)") (auto dest: holds_NoneD)
  from holds_SomeD[OF assms a]
  have blk: "blocks m a = Some (block_of xs (unat (capacity_m (data_m w))))" and lt: "a < brk m"
    by simp_all
  let ?m1 = "m\<lparr>blocks := (blocks m)(brk m \<mapsto> replicate (length xs) Raw), brk := Suc (brk m)\<rparr>"
  have blka: "blocks ?m1 a = Some (block_of xs (unat (capacity_m (data_m w))))"
    using blk lt by simp
  have blkb: "blocks ?m1 (brk m) = Some (replicate (length xs) Raw)" by simp
  have ne: "a \<noteq> brk m" using lt by simp
  from uninitialized_copy_n_blocks[OF blka blkb ne, of 0 "length xs" 0 xs]
  have u: "uninitialized_copy_n ?m1 (Ptr (Some a) 0) (length xs) (Ptr (Some (brk m)) 0) =
     Inr (?m1\<lparr>blocks := (blocks ?m1)(brk m \<mapsto> block_of xs (length xs)),
              ctor_log := ctor_log ?m1 @ map CopyConstructed xs\<rparr>)"
    using le by (simp add: block_of_def)
  have e: "Vector_copy_ctor m w =
     Inr (?m1\<lparr>blocks := (blocks ?m1)(brk m \<mapsto> block_of xs (length xs)),
              ctor_log := ctor_log ?m1 @ map CopyConstructed xs\<rparr>,
          \<lparr>data_m = \<lparr>buffer_m = Some (brk m), capacity_m = size_m w\<rparr>, size_m = size_m w\<rparr>)"
    unfolding Vector_copy_ctor_def RawMemory_ctor_def Allocate_def RawMemory_GetAddress_def
    using False u a len by simp
  have "holds (?m1\<lparr>blocks := (blocks ?m1)(brk m \<mapsto> block_of xs (length xs)),
              ctor_log := ctor_log ?m1 @ map CopyConstructed xs\<rparr>)
          \<lparr>data_m = \<lparr>buffer_m = Some (brk m), capacity_m = size_m w\<rparr>, size_m = size_m w\<rparr> xs"
    using False len by (intro holdsI) simp_all
  with e show ?thesis by (simp add: frame_def)
qed

lemma block_of_take:
  "k \<le> length xs \<Longrightarrow> length xs \<le> c \<Longrightarrow>
   take k (block_of xs c) @ replicate (length xs - k) Raw @ drop (k + (length xs - k)) (block_of xs c) =
   block_of (take k xs) c"
  by (simp add: block_of_def min_absorb2 flip: replicate_add take_map)

lemma block_of_extend:
  "length xs + k \<le> c \<Longrightarrow>
   take (length xs) (block_of xs c) @ replicate k (Obj x) @ drop (length xs + k) (block_of xs c) =
   block_of (xs @ replicate k x) c"
  by (simp add: block_of_def)

lemma Resize_holds:
  assumes h: "holds m v xs"
  shows "\<exists>m' v'. Resize E m v n = Inr (m', v') \<and>
     holds m' v' (take (unat n) xs @ replicate (unat n - length xs) (value_init E)) \<and>
     size_m v' = n \<and> frame (buffer_m (data_m v)) m m' \<and>
     (buffer_m (data_m v') = buffer_m (data_m v) \<or> buffer_m (data_m v') = Some (brk m))"
proof -
  have len: "unat (size_m v) = length xs" using h by (rule holds_lengthD)
  have le: "length xs \<le> unat (capacity_m (data_m v))" using h by (rule holds_leD)
  consider (shrink) "n < size_m v" | (grow) "size_m v < n" | (same) "n = size_m v"
    by (metis linorder_neqE)
  then show ?thesis
  proof cases
    case shrink
    then have nl: "unat n < length xs" using len by (simp add: word_less_nat_alt)
    then have "size_m v \<noteq> 0" using len by auto
    with h obtain a where a: "buffer_m (data_m v) = Some a"
      by (cases "buffer_m (data_m v)") (auto dest: holds_NoneD)
    from holds_SomeD[OF h a]
    have blk: "blocks m a = Some (block_of xs (unat (capacity_m (data_m v))))" and lt: "a < brk m"
      by simp_all
    have k: "unat (size_m v - n) = length xs - unat n"
      using shrink len by (simp add: unat_sub word_le_nat_alt word_less_nat_alt)
    have raw: "Raw \<notin> set (take (length xs - unat n) (drop (unat n) (block_of xs (unat (capacity_m (data_m v))))))"
      using nl le by (auto simp: block_of_def dest!: in_set_takeD in_set_dropD)
    from destroy_n_blocks[OF blk _ raw] nl le
    have d: "destroy_n m (Ptr (Some a) (unat n)) (length xs - unat n) =
       Inr (m\<lparr>blocks := (blocks m)(a \<mapsto> block_of (take (unat n) xs) (unat (capacity_m (data_m v))))\<rparr>)"
      using block_of_take[of "unat n" xs "unat (capacity_m (data_m v))"] by simp
    have e: "Resize E m v n =
       Inr (m\<lparr>blocks := (blocks m)(a \<mapsto> block_of (take (unat n) xs) (unat (capacity_m (data_m v))))\<rparr>,
            v\<lparr>size_m := n\<rparr>)"
      unfolding Resize_def RawMemory_GetAddress_def using shrink a k d by simp
    have "holds (m\<lparr>blocks := (blocks m)(a \<mapsto> block_of (take (unat n) xs) (unat (capacity_m (data_m v))))\<rparr>)
        (v\<lparr>size_m := n\<rparr>) (take (unat n) xs)"
      using h a nl shrink by (auto simp: holds_def min_absorb2)
    with e a nl show ?thesis by (simp add: frame_def)
  next
    case grow
    from Reserve_holds[OF h, of E n] obtain m1 v1 where
      r: "Reserve E m v n = Inr (m1, v1)" and h1: "holds m1 v1 xs"
      and c1: "n \<le> capacity_m (data_m v1)" and s1: "size_m v1 = size_m v"
      and f1: "frame (buffer_m (data_m v)) m m1"
      and b1: "buffer_m (data_m v1) = buffer_m (data_m v) \<or> buffer_m (data_m v1) = Some (brk m)"
      by blast
    have ln: "length xs < unat n" using grow len by (simp add: word_less_nat_alt)
    have ng: "\<not> n < size_m v" using grow by (auto simp: not_less intro: less_imp_le)
    have "capacity_m (data_m v1) \<noteq> 0" using c1 grow by (auto dest: word_le_0D)
    with h1 obtain b where b: "buffer_m (data_m v1) = Some b"
      by (cases "buffer_m (data_m v1)") (auto dest: holds_NoneD)
    from holds_SomeD[OF h1 b]
    have blk: "blocks m1 b = Some (block_of xs (unat (capacity_m (data_m v1))))" and lt: "b < brk m1"
      by simp_all
    have k: "unat (n - size_m v) = unat n - length xs"
      using grow len by (simp add: unat_sub word_le_nat_alt word_less_nat_alt)
    have nc: "unat n \<le> unat (capacity_m (data_m v1))" using c1 by (simp add: word_le_nat_alt)
    let ?ys = "xs @ replicate (unat n - length xs) (value_init E)"
    from uninitialized_value_construct_n_blocks[OF blk, of "length xs" "unat n - length xs" E]
    have u: "uninitialized_value_construct_n E m1 (Ptr (Some b) (length xs)) (unat n - length xs) =
       Inr (m1\<lparr>blocks := (blocks m1)(b \<mapsto> block_of ?ys (unat (capacity_m (data_m v1)))),
              ctor_log := ctor_log m1 @ replicate (unat n - length xs) (ValueConstructed (value_init E))\<rparr>)"
      using ln nc block_of_extend[of xs "unat n - length xs" "unat (capacity_m (data_m v1))" "value_init E"]
      by simp
    have e: "Resize E m v n =
       Inr (m1\<lparr>blocks := (blocks m1)(b \<mapsto> block_of ?ys (unat (capacity_m (data_m v1)))),
              ctor_log := ctor_log m1 @ replicate (unat n - length xs) (ValueConstructed (value_init E))\<rparr>,
            v1\<lparr>size_m := n\<rparr>)"
      unfolding Resize_def RawMemory_GetAddress_def using grow ng r b s1 k len u
      by simp
    have hh: "holds (m1\<lparr>blocks := (blocks m1)(b \<mapsto> block_of ?ys (unat (capacity_m (data_m v1)))),
              ctor_log := ctor_log m1 @ replicate (unat n - length xs) (ValueConstructed (value_init E))\<rparr>)
            (v1\<lparr>size_m := n\<rparr>) ?ys"
      using h1 b ln c1 by (auto simp: holds_def)
    have fr: "frame (buffer_m (data_m v)) m
       (m1\<lparr>blocks := (blocks m1)(b \<mapsto> block_of ?ys (unat (capacity_m (data_m v1)))),
              ctor_log := ctor_log m1 @ replicate (unat n - length xs) (ValueConstructed (value_init E))\<rparr>)"
      using f1 b1 b by (auto simp: frame_def)
    from e hh fr b1 ln show ?thesis by simp
  next
    case same
    then have "Resize E m v n = Inr (m, v)" by (simp add: Resize_def)
    with h same len show ?thesis by simp
  qed
qed

section \<open>Throwing constructors and move assignment\<close>

lemma fresh_vector_frame:
  assumes r: "Reserve E m Vector_ctor n = Inr (m1, v1)"
    and d: "Vector_dtor m1 (v1\<lparr>size_m := s\<rparr>) = Inr m2"
  shows "frame None m m2"
proof -
  from Reserve_holds[OF holds_Vector_ctor, where m=m and E=E and n=n] r
  have f: "frame None m m1" and b: "buffer_m (data_m v1) = None \<or> buffer_m (data_m v1) = Some (brk m)"
    by (auto simp: Vector_ctor_def RawMemory_default_def)
  from Vector_dtor_frame[OF d]
  have "brk m2 = brk m1" "\<forall>c. buffer_m (data_m v1) \<noteq> Some c \<longrightarrow> blocks m2 c = blocks m1 c"
    by simp_all
  with f b show ?thesis by (auto simp: frame_def)
qed

lemma EmplaceBack_Throwing:
  assumes h: "holds m v xs"
  shows "(\<exists>m'. EmplaceBack E m v Throwing = Throw (m', v) \<and> frame None m m') \<or>
     (\<exists>f. EmplaceBack E m v Throwing = Fault f)"
proof (cases "size_m v = capacity_m (data_m v)")
  case False
  from EmplaceBack_in_place_throw[OF h False, of E] show ?thesis by simp
next
  case True
  let ?n = "if size_m v = 0 then 1 else size_m v * 2"
  from Reserve_holds[OF holds_Vector_ctor, where m=m and E=E and n="?n"] obtain m1 v1 where
    r: "Reserve E m Vector_ctor ?n = Inr (m1, v1)" by blast
  have e: "EmplaceBack E m v Throwing =
     run (RawMemory_plus (data_m v1) (size_m v)) (\<lambda>p.
       run (Vector_dtor m1 (v1\<lparr>size_m := size_m v\<rparr>)) (\<lambda>m2. Throw (m2, v)))"
    unfolding EmplaceBack_def Capacity_def RawMemory_Capacity_def using True r
    by (simp add: Let_def cong: if_cong)
  show ?thesis
  proof (cases "RawMemory_plus (data_m v1) (size_m v)")
    case (Inl f)
    with e show ?thesis by simp
  next
    case (Inr p)
    show ?thesis
    proof (cases "Vector_dtor m1 (v1\<lparr>size_m := size_m v\<rparr>)")
      case (Inl f)
      with e Inr show ?thesis by simp
    next
      case (Inr m2)
      from fresh_vector_frame[OF r Inr] have "frame None m m2" .
      with e Inr \<open>RawMemory_plus (data_m v1) (size_m v) = Inr p\<close> show ?thesis by simp
    qed
  qed
qed

lemma Emplace_Throwing:
  assumes h: "holds m v xs" and i: "i \<le> length xs"
  shows "(\<exists>m'. Emplace E m v (Ptr (buffer_m (data_m v)) i) Throwing = Throw (m', v) \<and>
            frame None m m') \<or>
     (\<exists>f. Emplace E m v (Ptr (buffer_m (data_m v)) i) Throwing = Fault f)"
proof -
  have len: "unat (size_m v) = length xs" using h by (rule holds_lengthD)
  have sz: "size_m v \<le> capacity_m (data_m v)" using h by (simp add: holds_def)
  have "length xs < 2 ^ 64" using len unat_less_size[of "size_m v"] by simp
  with i have "i < 2 ^ 64" by simp
  then have idx: "unat (of_nat i :: size_t) = i" by (rule unat_of_nat_size)
  consider (last) "i = length xs" | (grow) "i < length xs" "size_m v = capacity_m (data_m v)"
    | (place) "i < length xs" "size_m v \<noteq> capacity_m (data_m v)"
    using i by fastforce
  then show ?thesis
  proof cases
    case last
    have e: "Emplace E m v (Ptr (buffer_m (data_m v)) (length xs)) Throwing =
       (case EmplaceBack E m v Throwing of
          Return (m1, this1) r \<Rightarrow>
            Return (m1, this1) (ptr_plus (Vector_begin this1) (unat (of_nat (length xs) :: size_t)))
        | Throw s \<Rightarrow> Throw s
        | Fault f \<Rightarrow> Fault f)"
      using len sz idx[unfolded last] by (simp add: Emplace_def raw_defs vector_defs Let_def)
    from EmplaceBack_Throwing[OF h, of E] show ?thesis unfolding last e by auto
  next
    case grow
    let ?n = "if size_m v = 0 then 1 else size_m v * 2"
    from Reserve_holds[OF holds_Vector_ctor, where m=m and E=E and n="?n"] obtain m1 v1 where
      r: "Reserve E m Vector_ctor ?n = Inr (m1, v1)" by blast
    have e: "Emplace E m v (Ptr (buffer_m (data_m v)) i) Throwing =
       run (Vector_dtor m1 (v1\<lparr>size_m := size_m v\<rparr>)) (\<lambda>m2. Throw (m2, v))"
      unfolding Emplace_def Capacity_def RawMemory_Capacity_def Vector_end_def RawMemory_plus_def
        RawMemory_GetAddress_def
      using grow r len sz idx by (simp add: Let_def cong: if_cong)
    show ?thesis
    proof (cases "Vector_dtor m1 (v1\<lparr>size_m := size_m v\<rparr>)")
      case (Inl f)
      with e show ?thesis by simp
    next
      case (Inr m2)
      from fresh_vector_frame[OF r Inr] have "frame None m m2" .
      with e Inr show ?thesis by simp
    qed
  next
    case place
    have "Emplace E m v (Ptr (buffer_m (data_m v)) i) Throwing = Throw (m\<lparr>brk := Suc (brk m)\<rparr>, v)"
      unfolding Emplace_def Capacity_def RawMemory_Capacity_def Vector_end_def RawMemory_plus_def
        RawMemory_GetAddress_def new_object_def
      using place len sz idx by (simp add: Let_def)
    then show ?thesis by (simp add: frame_def)
  qed
qed

lemma holds_read_fails:
  "holds m v xs \<Longrightarrow> length xs \<le> j \<Longrightarrow> \<exists>f. read_object m (Ptr (buffer_m (data_m v)) j) = Inl f"
  by (auto simp: read_object_def load_def block_of_def nth_append holds_def andthen_def
      split: option.splits)

lemma Vector_move_ctor_eq [simp]:
  "Vector_move_ctor w = (w, \<lparr>data_m = \<lparr>buffer_m = None, capacity_m = 0\<rparr>, size_m = 0\<rparr>)"
  by (simp add: Vector_move_ctor_def RawMemory_move_ctor_def)

lemma holds_null [simp]: "holds m \<lparr>data_m = \<lparr>buffer_m = None, capacity_m = 0\<rparr>, size_m = 0\<rparr> []"
  by (simp add: holds_def)

lemma well_formed_put2:
  assumes wf: "well_formed st" and ne: "r \<noteq> q"
    and hv: "holds m' v' ys" and hw: "holds m' w' zs" and fr: "frame buf (mem st) m'"
    and vw: "buffer_m (data_m v') = None \<or> buffer_m (data_m v') \<noteq> buffer_m (data_m w')"
    and own: "\<And>r' u. r' \<noteq> r \<Longrightarrow> r' \<noteq> q \<Longrightarrow> vectors st r' = Some u \<Longrightarrow>
       buffer_m (data_m u) = None \<or>
       (buffer_m (data_m u) \<noteq> buf \<and> buffer_m (data_m u) \<noteq> buffer_m (data_m v') \<and>
        buffer_m (data_m u) \<noteq> buffer_m (data_m w'))"
  shows "well_formed (st\<lparr>mem := m', vectors := (vectors st)(r \<mapsto> v', q \<mapsto> w')\<rparr>)"
    (is "well_formed ?st")
  unfolding well_formed_def
proof (intro conjI allI impI)
  fix x u assume "vectors ?st x = Some u"
  then consider "x = r" "u = v'" | "x = q" "u = w'" | "x \<noteq> r" "x \<noteq> q" "vectors st x = Some u"
    using ne by (auto split: if_splits)
  then show "\<exists>xs. holds (mem ?st) u xs"
  proof cases
    case 1 with hv show ?thesis by auto
  next
    case 2 with hw show ?thesis by auto
  next
    case 3
    from well_formed_holdsD[OF wf 3(3)] obtain us where "holds (mem st) u us" ..
    from frame_holds[OF this fr] own[OF 3] have "holds m' u us" by auto
    then show ?thesis by auto
  qed
next
  fix x y u u'
  assume a: "vectors ?st x = Some u \<and> vectors ?st y = Some u' \<and> x \<noteq> y \<and>
     buffer_m (data_m u) \<noteq> None"
  then have xu: "(x = r \<and> u = v') \<or> (x = q \<and> u = w') \<or> (x \<noteq> r \<and> x \<noteq> q \<and> vectors st x = Some u)"
    using ne by (auto split: if_splits)
  from a have yu: "(y = r \<and> u' = v') \<or> (y = q \<and> u' = w') \<or> (y \<noteq> r \<and> y \<noteq> q \<and> vectors st y = Some u')"
    using ne by (auto split: if_splits)
  from a have xy: "x \<noteq> y" and bu: "buffer_m (data_m u) \<noteq> None" by simp_all
  show "buffer_m (data_m u) \<noteq> buffer_m (data_m u')"
  proof (cases "x \<noteq> r \<and> x \<noteq> q")
    case True
    with xu have su: "vectors st x = Some u" by simp
    show ?thesis
    proof (cases "y \<noteq> r \<and> y \<noteq> q")
      case True
      with yu have "vectors st y = Some u'" by simp
      with wf su xy bu show ?thesis unfolding well_formed_def by blast
    next
      case False
      with yu have "u' = v' \<or> u' = w'" by auto
      with own[of x u] True su bu show ?thesis by auto
    qed
  next
    case False
    with xu have xc: "(x = r \<and> u = v') \<or> (x = q \<and> u = w')" by auto
    show ?thesis
    proof (cases "y \<noteq> r \<and> y \<noteq> q")
      case True
      with yu have "vectors st y = Some u'" by simp
      from own[OF _ _ this] True have "buffer_m (data_m u') = None \<or>
         (buffer_m (data_m u') \<noteq> buffer_m (data_m v') \<and> buffer_m (data_m u') \<noteq> buffer_m (data_m w'))"
        by auto
      with xc bu show ?thesis by auto
    next
      case False
      with yu xc xy ne have "(u = v' \<and> u' = w') \<or> (u = w' \<and> u' = v')" by auto
      with vw bu show ?thesis by auto
    qed
  qed
qed

lemma holds_release:
  "holds m v xs \<Longrightarrow> buffer_m (data_m v) = None \<or> buffer_m (data_m v) \<noteq> buf \<Longrightarrow>
   holds (m\<lparr>blocks := release buf (blocks m)\<rparr>) v xs"
  by (auto simp: holds_def release_def split: option.splits)

lemma frame_release: "frame buf m (m\<lparr>blocks := release buf (blocks m)\<rparr>)"
  by (auto simp: frame_def release_def split: option.splits)

lemma Vector_move_assign_well_formed:
  assumes wf: "well_formed st" and t: "vectors st this = Some t" and r: "vectors st rhs = Some r"
    and a: "assigned (Vector_move_assign st this rhs) = Some st'"
  shows "well_formed st'"
proof (cases "this = rhs")
  case True
  with a wf show ?thesis by (simp add: Vector_move_assign_def assigned_def)
next
  case False
  from well_formed_holdsD[OF wf t] obtain xt where ht: "holds (mem st) t xt" ..
  from well_formed_holdsD[OF wf r] obtain xr where hr: "holds (mem st) r xr" ..
  have tr: "buffer_m (data_m r) = None \<or> buffer_m (data_m r) \<noteq> buffer_m (data_m t)"
    using well_formed_distinctD[OF wf r t] False by (cases "buffer_m (data_m r)") auto
  consider (big) "capacity_m (data_m t) < size_m r"
    | (shrink) "\<not> capacity_m (data_m t) < size_m r" "size_m r < size_m t"
    | (swap) "\<not> capacity_m (data_m t) < size_m r" "\<not> size_m r < size_m t"
    by blast
  then show ?thesis
  proof cases
    case big
    let ?m1 = "mem st\<lparr>blocks := release (buffer_m (data_m t)) (blocks (mem st))\<rparr>"
    let ?null = "\<lparr>data_m = \<lparr>buffer_m = None, capacity_m = 0\<rparr>, size_m = 0\<rparr>"
    have "Vector_move_assign st this rhs =
       Return (st\<lparr>mem := ?m1, vectors := (vectors st)(this \<mapsto> r, rhs \<mapsto> ?null)\<rparr>) this"
      using False t r big Vector_dtor_holds[OF ht]
      by (simp add: Vector_move_assign_def RawMemory_Capacity_def)
    with a have st': "st' = st\<lparr>mem := ?m1, vectors := (vectors st)(this \<mapsto> r, rhs \<mapsto> ?null)\<rparr>"
      by (simp add: assigned_def)
    have h1: "holds ?m1 r xr" using hr tr by (rule holds_release)
    show ?thesis unfolding st'
    proof (rule well_formed_put2[OF wf False h1 holds_null frame_release])
      show "buffer_m (data_m r) = None \<or> buffer_m (data_m r) \<noteq> buffer_m (data_m ?null)"
        by auto
    next
      fix r' u assume n1: "r' \<noteq> this" and n2: "r' \<noteq> rhs" and u: "vectors st r' = Some u"
      show "buffer_m (data_m u) = None \<or>
         (buffer_m (data_m u) \<noteq> buffer_m (data_m t) \<and> buffer_m (data_m u) \<noteq> buffer_m (data_m r) \<and>
          buffer_m (data_m u) \<noteq> buffer_m (data_m ?null))"
        using well_formed_distinctD[OF wf u t n1] well_formed_distinctD[OF wf u r n2]
        by (cases "buffer_m (data_m u)") auto
    qed
  next
    case shrink
    have len: "unat (size_m t) = length xt" "unat (size_m r) = length xr"
      using ht hr by (simp_all add: holds_lengthD)
    with shrink(2) have "length xr \<le> length xt" by (simp add: word_less_nat_alt)
    from holds_read_fails[OF hr this] obtain f where
      "read_object (mem st) (Ptr (buffer_m (data_m r)) (length xt)) = Inl f" ..
    then have d: "destroy_at (mem st) (Ptr (buffer_m (data_m r)) (length xt)) = Inl f"
      by (simp add: destroy_at_def)
    have "size_m r - size_m t \<noteq> 0" using shrink(2) by auto
    then have "unat (size_m r - size_m t) \<noteq> 0" by (simp add: unat_eq_zero)
    from destroy_n_first_fails[OF d this]
    have "Vector_move_assign st this rhs = Fault f"
      using False t r shrink len
      by (simp add: Vector_move_assign_def RawMemory_Capacity_def RawMemory_GetAddress_def)
    with a show ?thesis by (simp add: assigned_def)
  next
    case swap
    have "Vector_move_assign st this rhs =
       Return (st\<lparr>vectors := (vectors st)(this \<mapsto> r, rhs \<mapsto> t)\<rparr>) this"
      using False t r swap by (simp add: Vector_move_assign_def RawMemory_Capacity_def)
    with a have "st' = st\<lparr>vectors := (vectors st)(this \<mapsto> r, rhs \<mapsto> t)\<rparr>"
      by (simp add: assigned_def)
    with well_formed_exchange[OF wf t r] show ?thesis by simp
  qed
qed

section \<open>Copy assignment\<close>

lemma copy_assign_object_block:
  assumes "blocks m b = Some B" "i < length B" "B ! i = Obj x"
    "blocks m a = Some A" "j < length A" "A ! j \<noteq> Raw"
  shows "copy_assign_object m (Ptr (Some b) i) (Ptr (Some a) j) =
     Inr (m\<lparr>blocks := (blocks m)(a \<mapsto> A[j := Obj x])\<rparr>)"
proof -
  from assms(6) obtain y where "A ! j = Obj y" by (cases "A ! j") auto
  with assms show ?thesis
    by (simp add: copy_assign_object_def read_object_block store_block)
qed

lemma assign_loop_blocks:
  "blocks m a = Some A \<Longrightarrow> blocks m b = Some B \<Longrightarrow> a \<noteq> b \<Longrightarrow>
   buffer_m d = Some a \<Longrightarrow> buffer_m r = Some b \<Longrightarrow>
   unat i + k \<le> length A \<Longrightarrow> unat i + k \<le> length B \<Longrightarrow>
   unat i + k \<le> unat (capacity_m d) \<Longrightarrow> unat i + k \<le> unat (capacity_m r) \<Longrightarrow>
   take k (drop (unat i) B) = map Obj ys \<Longrightarrow> Raw \<notin> set (take k (drop (unat i) A)) \<Longrightarrow>
   assign_loop m d r i k =
     Inr (m\<lparr>blocks := (blocks m)(a \<mapsto> take (unat i) A @ map Obj ys @ drop (unat i + k) A)\<rparr>)"
proof (induction k arbitrary: m A i ys)
  case 0
  then show ?case by (simp add: map_upd_triv)
next
  case (Suc k)
  from Suc.prems(10,7) obtain y ys' where ys: "ys = y # ys'" and y: "B ! unat i = Obj y"
    and rest: "take k (drop (Suc (unat i)) B) = map Obj ys'"
    by (rule take_drop_Obj_Cons)
  have id: "i < capacity_m d" and ir: "i < capacity_m r"
    using Suc.prems(8,9) by (simp_all add: word_less_nat_alt)
  have su: "unat (i + 1) = Suc (unat i)" using id by (rule unat_succ)
  have iA: "unat i < length A" and iB: "unat i < length B" using Suc.prems(6,7) by simp_all
  have "drop (unat i) A = A ! unat i # drop (Suc (unat i)) A"
    using iA by (simp add: Cons_nth_drop_Suc)
  with Suc.prems(11) have live: "A ! unat i \<noteq> Raw"
    and raw: "Raw \<notin> set (take k (drop (Suc (unat i)) A))" by auto
  let ?m = "m\<lparr>blocks := (blocks m)(a \<mapsto> A[unat i := Obj y])\<rparr>"
  have "assign_loop m d r i (Suc k) = assign_loop ?m d r (i + 1) k"
    using Suc.prems(1-5) id ir iA iB y live
    by (simp add: RawMemory_index_def copy_assign_object_block)
  also have "\<dots> =
     Inr (?m\<lparr>blocks := (blocks ?m)(a \<mapsto> take (unat (i + 1)) (A[unat i := Obj y]) @ map Obj ys' @
              drop (unat (i + 1) + k) (A[unat i := Obj y]))\<rparr>)"
    using Suc.prems rest raw su by (intro Suc.IH) simp_all
  also have "\<dots> = Inr (m\<lparr>blocks := (blocks m)(a \<mapsto> take (unat i) A @ map Obj ys @
              drop (unat i + Suc k) A)\<rparr>)"
    using iA ys su by simp
  finally show ?case .
qed

lemma assign_loop_holds:
  assumes ht: "holds m t xt" and hr: "holds m r xr"
    and ne: "buffer_m (data_m r) = None \<or> buffer_m (data_m r) \<noteq> buffer_m (data_m t)"
    and kt: "k \<le> length xt" and kr: "k \<le> length xr"
  shows "\<exists>m1. assign_loop m (data_m t) (data_m r) 0 k = Inr m1 \<and>
     holds m1 t (take k xr @ drop k xt) \<and> holds m1 r xr \<and> frame (buffer_m (data_m t)) m m1"
proof (cases "k = 0")
  case True
  with ht hr show ?thesis by simp
next
  case False
  with kt kr have nt: "xt \<noteq> []" and nr: "xr \<noteq> []" by auto
  from nt ht obtain a where a: "buffer_m (data_m t) = Some a"
    by (cases "buffer_m (data_m t)") (auto dest: holds_NoneD)
  from nr hr obtain b where b: "buffer_m (data_m r) = Some b"
    by (cases "buffer_m (data_m r)") (auto dest: holds_NoneD)
  from ne a b have ab: "a \<noteq> b" by auto
  let ?ct = "unat (capacity_m (data_m t))" and ?cr = "unat (capacity_m (data_m r))"
  from holds_SomeD[OF ht a] have blka: "blocks m a = Some (block_of xt ?ct)" and la: "a < brk m"
    by simp_all
  from holds_SomeD[OF hr b] have blkb: "blocks m b = Some (block_of xr ?cr)" by simp
  have lt: "length xt \<le> ?ct" using ht by (rule holds_leD)
  have lr: "length xr \<le> ?cr" using hr by (rule holds_leD)
  have tk: "take k (drop (unat (0 :: size_t)) (block_of xr ?cr)) = map Obj (take k xr)"
    using kr by (simp add: block_of_def take_map)
  have raw: "Raw \<notin> set (take k (drop (unat (0 :: size_t)) (block_of xt ?ct)))"
    using kt by (auto simp: block_of_def dest!: in_set_takeD)
  have "assign_loop m (data_m t) (data_m r) 0 k =
     Inr (m\<lparr>blocks := (blocks m)(a \<mapsto> take (unat (0 :: size_t)) (block_of xt ?ct) @
            map Obj (take k xr) @ drop (unat (0 :: size_t) + k) (block_of xt ?ct))\<rparr>)"
    using kt kr lt lr by (intro assign_loop_blocks[OF blka blkb ab a b _ _ _ _ tk raw]) simp_all
  also have "take (unat (0 :: size_t)) (block_of xt ?ct) @
            map Obj (take k xr) @ drop (unat (0 :: size_t) + k) (block_of xt ?ct) =
     block_of (take k xr @ drop k xt) ?ct"
    using kt kr lt by (simp add: block_of_def drop_map min_absorb2)
  finally have e: "assign_loop m (data_m t) (data_m r) 0 k =
     Inr (m\<lparr>blocks := (blocks m)(a \<mapsto> block_of (take k xr @ drop k xt) ?ct)\<rparr>)" .
  have h1: "holds (m\<lparr>blocks := (blocks m)(a \<mapsto> block_of (take k xr @ drop k xt) ?ct)\<rparr>) t
      (take k xr @ drop k xt)"
    using kt kr by (intro holds_block_update[OF ht a]) simp
  have h2: "holds (m\<lparr>blocks := (blocks m)(a \<mapsto> block_of (take k xr @ drop k xt) ?ct)\<rparr>) r xr"
    using hr b ab by (auto simp: holds_def)
  from e h1 h2 a show ?thesis by (simp add: frame_def)
qed

lemma copy_tail_holds:
  assumes ht: "holds m t ys" and hr: "holds m r xr"
    and ne: "buffer_m (data_m r) = None \<or> buffer_m (data_m r) \<noteq> buffer_m (data_m t)"
    and le: "size_m t \<le> size_m r" and cap: "size_m r \<le> capacity_m (data_m t)"
  shows "\<exists>m1. uninitialized_copy_n m (Ptr (buffer_m (data_m r)) (length ys))
        (length xr - length ys) (Ptr (buffer_m (data_m t)) (length ys)) = Inr m1 \<and>
     holds m1 (t\<lparr>size_m := size_m r\<rparr>) (ys @ drop (length ys) xr) \<and>
     frame (buffer_m (data_m t)) m m1"
proof (cases "size_m t = size_m r")
  case True
  with holds_lengthD[OF ht] holds_lengthD[OF hr] have "length xr = length ys" by simp
  with ht True show ?thesis by (auto simp: holds_def split: option.splits)
next
  case False
  have lens: "unat (size_m t) = length ys" "unat (size_m r) = length xr"
    using ht hr by (simp_all add: holds_lengthD)
  from False le have "size_m t < size_m r" by simp
  then have lt: "length ys < length xr" using lens by (simp add: word_less_nat_alt)
  then have nr: "xr \<noteq> []" by auto
  from nr hr obtain b where b: "buffer_m (data_m r) = Some b"
    by (cases "buffer_m (data_m r)") (auto dest: holds_NoneD)
  have "capacity_m (data_m t) \<noteq> 0" using cap nr lens by (auto dest: word_le_0D)
  with ht obtain a where a: "buffer_m (data_m t) = Some a"
    by (cases "buffer_m (data_m t)") (auto dest: holds_NoneD)
  from ne a b have ab: "b \<noteq> a" by auto
  let ?ct = "unat (capacity_m (data_m t))" and ?cr = "unat (capacity_m (data_m r))"
  from holds_SomeD[OF ht a] have blka: "blocks m a = Some (block_of ys ?ct)" and la: "a < brk m"
    by simp_all
  from holds_SomeD[OF hr b] have blkb: "blocks m b = Some (block_of xr ?cr)" by simp
  have lr: "length xr \<le> ?cr" using hr by (rule holds_leD)
  have lc: "length xr \<le> ?ct" using cap lens by (simp add: word_le_nat_alt)
  have tk: "take (length xr - length ys) (drop (length ys) (block_of xr ?cr)) =
     map Obj (drop (length ys) xr)"
    using lt by (simp add: block_of_def drop_map)
  have "uninitialized_copy_n m (Ptr (Some b) (length ys)) (length xr - length ys)
        (Ptr (Some a) (length ys)) =
     Inr (m\<lparr>blocks := (blocks m)(a \<mapsto> take (length ys) (block_of ys ?ct) @
               map Obj (drop (length ys) xr) @
               drop (length ys + (length xr - length ys)) (block_of ys ?ct)),
            ctor_log := ctor_log m @ map CopyConstructed (drop (length ys) xr)\<rparr>)"
    using lt lr lc by (intro uninitialized_copy_n_blocks[OF blkb blka ab _ _ tk]) simp_all
  also have "take (length ys) (block_of ys ?ct) @ map Obj (drop (length ys) xr) @
               drop (length ys + (length xr - length ys)) (block_of ys ?ct) =
     block_of (ys @ drop (length ys) xr) ?ct"
    using lt lc by (simp add: block_of_def)
  finally have e: "uninitialized_copy_n m (Ptr (Some b) (length ys)) (length xr - length ys)
        (Ptr (Some a) (length ys)) =
     Inr (m\<lparr>blocks := (blocks m)(a \<mapsto> block_of (ys @ drop (length ys) xr) ?ct),
            ctor_log := ctor_log m @ map CopyConstructed (drop (length ys) xr)\<rparr>)" .
  have "holds (m\<lparr>blocks := (blocks m)(a \<mapsto> block_of (ys @ drop (length ys) xr) ?ct),
            ctor_log := ctor_log m @ map CopyConstructed (drop (length ys) xr)\<rparr>)
          (t\<lparr>size_m := size_m r\<rparr>) (ys @ drop (length ys) xr)"
    using ht a lt lens cap by (auto simp: holds_def)
  with e a b show ?thesis by (simp add: frame_def)
qed

lemma destroy_tail_holds:
  assumes h: "holds m v xs" and shrink: "n < size_m v"
  shows "\<exists>m'. destroy_n m (Ptr (buffer_m (data_m v)) (unat n)) (unat (size_m v - n)) = Inr m' \<and>
     holds m' (v\<lparr>size_m := n\<rparr>) (take (unat n) xs) \<and> frame (buffer_m (data_m v)) m m'"
proof -
  have len: "unat (size_m v) = length xs" using h by (rule holds_lengthD)
  have le: "length xs \<le> unat (capacity_m (data_m v))" using h by (rule holds_leD)
  from shrink have nl: "unat n < length xs" using len by (simp add: word_less_nat_alt)
  then have "size_m v \<noteq> 0" using len by auto
  with h obtain a where a: "buffer_m (data_m v) = Some a"
    by (cases "buffer_m (data_m v)") (auto dest: holds_NoneD)
  from holds_SomeD[OF h a]
  have blk: "blocks m a = Some (block_of xs (unat (capacity_m (data_m v))))" and lt: "a < brk m"
    by simp_all
  have k: "unat (size_m v - n) = length xs - unat n"
    using shrink len by (simp add: unat_sub word_le_nat_alt word_less_nat_alt)
  have raw: "Raw \<notin> set (take (length xs - unat n) (drop (unat n) (block_of xs (unat (capacity_m (data_m v))))))"
    using nl le by (auto simp: block_of_def dest!: in_set_takeD in_set_dropD)
  from destroy_n_blocks[OF blk _ raw] nl le
  have d: "destroy_n m (Ptr (Some a) (unat n)) (length xs - unat n) =
     Inr (m\<lparr>blocks := (blocks m)(a \<mapsto> block_of (take (unat n) xs) (unat (capacity_m (data_m v))))\<rparr>)"
    using block_of_take[of "unat n" xs "unat (capacity_m (data_m v))"] by simp
  have "holds (m\<lparr>blocks := (blocks m)(a \<mapsto> block_of (take (unat n) xs) (unat (capacity_m (data_m v))))\<rparr>)
      (v\<lparr>size_m := n\<rparr>) (take (unat n) xs)"
    using h a nl shrink by (auto simp: holds_def min_absorb2)
  with d a k show ?thesis by (simp add: frame_def)
qed

lemma Vector_copy_assign_well_formed:
  assumes wf: "well_formed st" and t: "vectors st this = Some t" and r: "vectors st rhs = Some r"
    and a: "assigned (Vector_copy_assign st this rhs) = Some st'"
  shows "well_formed st'"
proof (cases "this = rhs")
  case True
  with a wf show ?thesis by (simp add: Vector_copy_assign_def assigned_def)
next
  case False
  from well_formed_holdsD[OF wf t] obtain xt where ht: "holds (mem st) t xt" ..
  from well_formed_holdsD[OF wf r] obtain xr where hr: "holds (mem st) r xr" ..
  have ne: "buffer_m (data_m r) = None \<or> buffer_m (data_m r) \<noteq> buffer_m (data_m t)"
    using well_formed_distinctD[OF wf r t] False by (cases "buffer_m (data_m r)") auto
  have lens: "unat (size_m t) = length xt" "unat (size_m r) = length xr"
    using ht hr by (simp_all add: holds_lengthD)
  consider (big) "capacity_m (data_m t) < size_m r"
    | (shrink) "\<not> capacity_m (data_m t) < size_m r" "size_m r < size_m t"
    | (extend) "\<not> capacity_m (data_m t) < size_m r" "\<not> size_m r < size_m t"
    by blast
  then show ?thesis
  proof cases
    case big
    from Vector_copy_ctor_holds[OF hr] obtain m1 rc where
      c: "Vector_copy_ctor (mem st) r = Inr (m1, rc)" and h1: "holds m1 rc xr"
      and f1: "frame None (mem st) m1"
      and b1: "buffer_m (data_m rc) = None \<or> buffer_m (data_m rc) = Some (brk (mem st))"
      by blast
    have ht1: "holds m1 t xt" using ht f1 by (rule frame_holds) auto
    let ?m2 = "m1\<lparr>blocks := release (buffer_m (data_m t)) (blocks m1)\<rparr>"
    have "Vector_copy_assign st this rhs =
       Return (st\<lparr>mem := ?m2, vectors := (vectors st)(this \<mapsto> rc)\<rparr>) this"
      using False t r big c Vector_dtor_holds[OF ht1]
      by (simp add: Vector_copy_assign_def RawMemory_Capacity_def)
    with a have st': "st' = put st this (?m2, rc)" by (simp add: assigned_def put_def)
    have fresh: "buffer_m (data_m rc) = None \<or> buffer_m (data_m rc) \<noteq> buffer_m (data_m t)"
    proof (cases "buffer_m (data_m t)")
      case None
      then show ?thesis by (cases "buffer_m (data_m rc)") auto
    next
      case (Some a)
      from holds_SomeD[OF ht Some] have "a < brk (mem st)" by simp
      with b1 Some show ?thesis by auto
    qed
    have h2: "holds ?m2 rc xr" using h1 fresh by (rule holds_release)
    have f2: "frame (buffer_m (data_m t)) (mem st) ?m2"
      using f1 by (auto simp: frame_def release_def split: option.splits)
    show ?thesis unfolding st'
      using b1 by (intro well_formed_put_own[OF wf t h2 f2]) auto
  next
    case shrink
    have kr: "length xr \<le> length xt" using shrink(2) lens by (simp add: word_less_nat_alt)
    from assign_loop_holds[OF ht hr ne kr order_refl] obtain m1 where
      l: "assign_loop (mem st) (data_m t) (data_m r) 0 (length xr) = Inr m1"
      and h1: "holds m1 t (take (length xr) xr @ drop (length xr) xt)"
      and f1: "frame (buffer_m (data_m t)) (mem st) m1" by blast
    have ly: "length (take (length xr) xr @ drop (length xr) xt) = length xt" using kr by simp
    from destroy_tail_holds[OF h1 shrink(2)] obtain m2 where
      d: "destroy_n m1 (Ptr (buffer_m (data_m t)) (length xr)) (unat (size_m t - size_m r)) = Inr m2"
      and h2: "holds m2 (t\<lparr>size_m := size_m r\<rparr>)
          (take (unat (size_m r)) (take (length xr) xr @ drop (length xr) xt))"
      and f2: "frame (buffer_m (data_m t)) m1 m2"
      unfolding lens by blast
    have "Vector_copy_assign st this rhs =
       Return (st\<lparr>mem := m2, vectors := (vectors st)(this \<mapsto> t\<lparr>size_m := size_m r\<rparr>)\<rparr>) this"
      using False t r shrink l d lens
      by (simp add: Vector_copy_assign_def RawMemory_Capacity_def RawMemory_GetAddress_def)
    with a have st': "st' = put st this (m2, t\<lparr>size_m := size_m r\<rparr>)"
      by (simp add: assigned_def put_def)
    have f: "frame (buffer_m (data_m t)) (mem st) m2"
      using f1 f2 by (rule frame_trans) simp
    show ?thesis unfolding st'
      by (intro well_formed_put_own[OF wf t h2 f]) simp
  next
    case extend
    have le: "size_m t \<le> size_m r" using extend(2) by simp
    have cap: "size_m r \<le> capacity_m (data_m t)" using extend(1) by simp
    have kt: "length xt \<le> length xr" using le lens by (simp add: word_le_nat_alt)
    from assign_loop_holds[OF ht hr ne order_refl kt] obtain m1 where
      l: "assign_loop (mem st) (data_m t) (data_m r) 0 (length xt) = Inr m1"
      and h1: "holds m1 t (take (length xt) xr @ drop (length xt) xt)"
      and hr1: "holds m1 r xr"
      and f1: "frame (buffer_m (data_m t)) (mem st) m1" by blast
    have ly: "length (take (length xt) xr @ drop (length xt) xt) = length xt" using kt by simp
    from copy_tail_holds[OF h1 hr1 ne le cap] obtain m2 where
      c: "uninitialized_copy_n m1 (Ptr (buffer_m (data_m r)) (length xt))
            (length xr - length xt) (Ptr (buffer_m (data_m t)) (length xt)) = Inr m2"
      and h2: "holds m2 (t\<lparr>size_m := size_m r\<rparr>)
         ((take (length xt) xr @ drop (length xt) xt) @ drop (length xt) xr)"
      and f2: "frame (buffer_m (data_m t)) m1 m2"
      unfolding ly by blast
    have k: "unat (size_m r - size_m t) = length xr - length xt"
      using le lens by (simp add: unat_sub)
    have "Vector_copy_assign st this rhs =
       Return (st\<lparr>mem := m2, vectors := (vectors st)(this \<mapsto> t\<lparr>size_m := size_m r\<rparr>)\<rparr>) this"
      using False t r extend l c k lens
      by (simp add: Vector_copy_assign_def RawMemory_Capacity_def RawMemory_GetAddress_def)
    with a have st': "st' = put st this (m2, t\<lparr>size_m := size_m r\<rparr>)"
      by (simp add: assigned_def put_def)
    have f: "frame (buffer_m (data_m t)) (mem st) m2"
      using f1 f2 by (rule frame_trans) simp
    show ?thesis unfolding st'
      by (intro well_formed_put_own[OF wf t h2 f]) simp
  qed
qed

section \<open>Every call keeps the state well formed\<close>

lemma well_formed_initial [simp]: "well_formed initial_state"
  by (simp add: well_formed_def initial_state_def)

lemma well_formed_step:
  "well_formed st \<Longrightarrow> vectors st r = Some v \<Longrightarrow> holds m' v' ys \<Longrightarrow>
   frame (buffer_m (data_m v)) (mem st) m' \<Longrightarrow>
   buffer_m (data_m v') = buffer_m (data_m v) \<or> buffer_m (data_m v') = Some (brk (mem st)) \<Longrightarrow>
   well_formed (put st r (m', v'))"
  by (rule well_formed_put_own) auto

lemma well_formed_thrown:
  assumes wf: "well_formed st" and v: "vectors st r = Some v" and f: "frame None (mem st) m'"
  shows "well_formed (put st r (m', v))"
proof -
  from well_formed_holdsD[OF wf v] obtain xs where h: "holds (mem st) v xs" ..
  from h f have h': "holds m' v xs" by (rule frame_holds) auto
  from f have "frame (buffer_m (data_m v)) (mem st) m'" by (rule frame_None)
  from well_formed_step[OF wf v h' this] show ?thesis by simp
qed

lemma well_formed_EmplaceBack:
  assumes wf: "well_formed st" and v: "vectors st r = Some v" and g: "unat (size_m v) < 2 ^ 63"
    and c: "completed st r (EmplaceBack E (mem st) v args) = Some st'"
  shows "well_formed st'"
proof -
  from well_formed_holdsD[OF wf v] obtain xs where h: "holds (mem st) v xs" ..
  show ?thesis
  proof (cases args)
    case (Value x)
    from EmplaceBack_holds[OF h g, of E x] obtain m' v' where
      e: "EmplaceBack E (mem st) v (Value x) =
          Return (m', v') (Reference (Ptr (buffer_m (data_m v')) (length xs)))"
      and h': "holds m' v' (xs @ [x])" and f: "frame (buffer_m (data_m v)) (mem st) m'"
      and b: "buffer_m (data_m v') = buffer_m (data_m v) \<or>
              buffer_m (data_m v') = Some (brk (mem st))" by blast
    from c e Value have "st' = put st r (m', v')" by (simp add: completed_def)
    with well_formed_step[OF wf v h' f b] show ?thesis by simp
  next
    case Throwing
    from EmplaceBack_Throwing[OF h, of E] show ?thesis
    proof (elim disjE exE conjE)
      fix m' assume e: "EmplaceBack E (mem st) v Throwing = Throw (m', v)"
        and f: "frame None (mem st) m'"
      from c e Throwing have "st' = put st r (m', v)" by (simp add: completed_def)
      with well_formed_thrown[OF wf v f] show ?thesis by simp
    next
      fix f assume "EmplaceBack E (mem st) v Throwing = Fault f"
      with c Throwing show ?thesis by (simp add: completed_def)
    qed
  qed
qed

lemma completed_PushBack:
  "completed st r (PushBack E m v args) = completed st r (EmplaceBack E m v args)"
  by (simp add: completed_def PushBack_def split: outcome.splits)

lemma well_formed_Emplace:
  assumes wf: "well_formed st" and v: "vectors st r = Some v" and g: "unat (size_m v) < 2 ^ 63"
    and i: "i \<le> unat (size_m v)"
    and c: "completed st r (Emplace E (mem st) v (Ptr (buffer_m (data_m v)) i) args) = Some st'"
  shows "well_formed st'"
proof -
  from well_formed_holdsD[OF wf v] obtain xs where h: "holds (mem st) v xs" ..
  have len: "unat (size_m v) = length xs" using h by (rule holds_lengthD)
  from i g len have i': "i \<le> length xs" and g': "length xs < 2 ^ 63" by simp_all
  show ?thesis
  proof (cases args)
    case (Value x)
    from Emplace_holds[OF h i' g', of E x] obtain m' v' where
      e: "Emplace E (mem st) v (Ptr (buffer_m (data_m v)) i) (Value x) =
          Return (m', v') (Ptr (buffer_m (data_m v')) i)"
      and h': "holds m' v' (take i xs @ x # drop i xs)"
      and f: "frame (buffer_m (data_m v)) (mem st) m'"
      and b: "buffer_m (data_m v') = buffer_m (data_m v) \<or>
              buffer_m (data_m v') = Some (brk (mem st))" by blast
    from c e Value have "st' = put st r (m', v')" by (simp add: completed_def)
    with well_formed_step[OF wf v h' f b] show ?thesis by simp
  next
    case Throwing
    from Emplace_Throwing[OF h i', of E] show ?thesis
    proof (elim disjE exE conjE)
      fix m' assume e: "Emplace E (mem st) v (Ptr (buffer_m (data_m v)) i) Throwing = Throw (m', v)"
        and f: "frame None (mem st) m'"
      from c e Throwing have "st' = put st r (m', v)" by (simp add: completed_def)
      with well_formed_thrown[OF wf v f] show ?thesis by simp
    next
      fix f assume "Emplace E (mem st) v (Ptr (buffer_m (data_m v)) i) Throwing = Fault f"
      with c Throwing show ?thesis by (simp add: completed_def)
    qed
  qed
qed

lemma begin_plus [simp]: "ptr_plus (Vector_begin v) i = Ptr (buffer_m (data_m v)) i"
  by (simp add: Vector_begin_def RawMemory_GetAddress_def)

lemma call_well_formed:
  assumes wf: "well_formed st" and p: "precondition st c" and c: "call E st c = Some st'"
  shows "well_formed st'"
proof (cases c)
  case (Call_Vector r)
  with c have "st' = put st r (mem st, Vector_ctor)" by simp
  moreover have "well_formed (put st r (mem st, Vector_ctor))"
    by (rule well_formed_put_fresh[OF wf holds_Vector_ctor frame_refl])
       (simp add: Vector_ctor_def RawMemory_default_def)
  ultimately show ?thesis by simp
next
  case (Call_Vector_n r n)
  from Vector_ctor_n_holds[of E "mem st" n] obtain m' v' where
    e: "Vector_ctor_n E (mem st) n = Inr (m', v')"
    and h: "holds m' v' (replicate (unat n) (value_init E))" and f: "frame None (mem st) m'"
    and b: "buffer_m (data_m v') = None \<or> buffer_m (data_m v') = Some (brk (mem st))" by blast
  from c e Call_Vector_n have "st' = put st r (m', v')" by (simp add: returned_def)
  moreover have "well_formed (put st r (m', v'))"
    using b by (intro well_formed_put_fresh[OF wf h f]) auto
  ultimately show ?thesis by simp
next
  case (Call_Vector_copy r other)
  with p obtain w where w: "vectors st other = Some w"
    by (auto simp: exists_vector_def split: option.splits)
  from well_formed_holdsD[OF wf w] obtain xs where hw: "holds (mem st) w xs" ..
  from Vector_copy_ctor_holds[OF hw] obtain m' v' where
    e: "Vector_copy_ctor (mem st) w = Inr (m', v')"
    and h: "holds m' v' xs" and f: "frame None (mem st) m'"
    and b: "buffer_m (data_m v') = None \<or> buffer_m (data_m v') = Some (brk (mem st))" by blast
  from c e w Call_Vector_copy have "st' = put st r (m', v')" by (simp add: returned_def)
  moreover have "well_formed (put st r (m', v'))"
    using b by (intro well_formed_put_fresh[OF wf h f]) auto
  ultimately show ?thesis by simp
next
  case (Call_Vector_move r other)
  with p obtain w where w: "vectors st other = Some w" and r: "vectors st r = None"
    by (auto simp: exists_vector_def split: option.splits)
  then have ne: "other \<noteq> r" by auto
  from well_formed_holdsD[OF wf w] obtain xs where hw: "holds (mem st) w xs" ..
  let ?null = "\<lparr>data_m = \<lparr>buffer_m = None, capacity_m = 0\<rparr>, size_m = 0\<rparr>"
  from c w Call_Vector_move
  have st': "st' = st\<lparr>mem := mem st, vectors := (vectors st)(other \<mapsto> ?null, r \<mapsto> w)\<rparr>"
    by simp
  show ?thesis unfolding st'
  proof (rule well_formed_put2[OF wf ne holds_null hw frame_refl])
    show "buffer_m (data_m ?null) = None \<or> buffer_m (data_m ?null) \<noteq> buffer_m (data_m w)"
      by simp
  next
    fix r' u assume n1: "r' \<noteq> other" and n2: "r' \<noteq> r" and u: "vectors st r' = Some u"
    show "buffer_m (data_m u) = None \<or>
       (buffer_m (data_m u) \<noteq> None \<and> buffer_m (data_m u) \<noteq> buffer_m (data_m ?null) \<and>
        buffer_m (data_m u) \<noteq> buffer_m (data_m w))"
      using well_formed_distinctD[OF wf u w n1] by (cases "buffer_m (data_m u)") auto
  qed
next
  case (Call_copy_assign r rhs)
  with p obtain t w where t: "vectors st r = Some t" and w: "vectors st rhs = Some w"
    by (auto simp: exists_vector_def split: option.splits)
  from c Call_copy_assign have "assigned (Vector_copy_assign st r rhs) = Some st'" by simp
  with wf t w show ?thesis by (rule Vector_copy_assign_well_formed)
next
  case (Call_move_assign r rhs)
  with p obtain t w where t: "vectors st r = Some t" and w: "vectors st rhs = Some w"
    by (auto simp: exists_vector_def split: option.splits)
  from c Call_move_assign have "assigned (Vector_move_assign st r rhs) = Some st'" by simp
  with wf t w show ?thesis by (rule Vector_move_assign_well_formed)
next
  case (Call_Swap r other)
  with p obtain v w where v: "vectors st r = Some v" and w: "vectors st other = Some w"
    by (auto simp: exists_vector_def split: option.splits)
  from c v w Call_Swap have "st' = st\<lparr>vectors := (vectors st)(r \<mapsto> w, other \<mapsto> v)\<rparr>" by simp
  with well_formed_exchange[OF wf v w] show ?thesis by simp
next
  case (Call_Reserve r n)
  with p obtain v where v: "vectors st r = Some v"
    by (auto simp: exists_vector_def split: option.splits)
  from well_formed_holdsD[OF wf v] obtain xs where h: "holds (mem st) v xs" ..
  from Reserve_holds[OF h, of E n] obtain m' v' where
    e: "Reserve E (mem st) v n = Inr (m', v')" and h': "holds m' v' xs"
    and f: "frame (buffer_m (data_m v)) (mem st) m'"
    and b: "buffer_m (data_m v') = buffer_m (data_m v) \<or>
            buffer_m (data_m v') = Some (brk (mem st))" by blast
  from c e v Call_Reserve have "st' = put st r (m', v')" by (simp add: returned_def)
  with well_formed_step[OF wf v h' f b] show ?thesis by simp
next
  case (Call_Resize r n)
  with p obtain v where v: "vectors st r = Some v"
    by (auto simp: exists_vector_def split: option.splits)
  from well_formed_holdsD[OF wf v] obtain xs where h: "holds (mem st) v xs" ..
  from Resize_holds[OF h, of E n] obtain m' v' where
    e: "Resize E (mem st) v n = Inr (m', v')"
    and h': "holds m' v' (take (unat n) xs @ replicate (unat n - length xs) (value_init E))"
    and f: "frame (buffer_m (data_m v)) (mem st) m'"
    and b: "buffer_m (data_m v') = buffer_m (data_m v) \<or>
            buffer_m (data_m v') = Some (brk (mem st))" by blast
  from c e v Call_Resize have "st' = put st r (m', v')" by (simp add: returned_def)
  with well_formed_step[OF wf v h' f b] show ?thesis by simp
next
  case (Call_PushBack r val)
  with p obtain v where v: "vectors st r = Some v" and g: "unat (size_m v) < 2 ^ 63"
    by (auto simp: can_grow_def split: option.splits)
  from c v Call_PushBack have "completed st r (EmplaceBack E (mem st) v val) = Some st'"
    by (simp add: completed_PushBack)
  with wf v g show ?thesis by (rule well_formed_EmplaceBack)
next
  case (Call_EmplaceBack r args)
  with p obtain v where v: "vectors st r = Some v" and g: "unat (size_m v) < 2 ^ 63"
    by (auto simp: can_grow_def split: option.splits)
  from c v Call_EmplaceBack have "completed st r (EmplaceBack E (mem st) v args) = Some st'"
    by simp
  with wf v g show ?thesis by (rule well_formed_EmplaceBack)
next
  case (Call_PopBack r)
  with p obtain v where v: "vectors st r = Some v" and n: "size_m v \<noteq> 0"
    by (auto split: option.splits)
  from well_formed_holdsD[OF wf v] obtain xs where h: "holds (mem st) v xs" ..
  from n holds_lengthD[OF h] have "xs \<noteq> []" by (auto simp: unat_eq_zero)
  from PopBack_holds[OF h this] obtain m' v' where
    e: "PopBack (mem st) v = Inr (m', v')" and h': "holds m' v' (butlast xs)"
    and d: "data_m v' = data_m v" and f: "frame (buffer_m (data_m v)) (mem st) m'" by blast
  from c e v Call_PopBack have "st' = put st r (m', v')" by (simp add: returned_def)
  with well_formed_step[OF wf v h' f] d show ?thesis by simp
next
  case (Call_Insert r i val)
  with p obtain v where v: "vectors st r = Some v" and g: "unat (size_m v) < 2 ^ 63"
    and i: "i \<le> unat (size_m v)"
    by (auto simp: can_grow_def split: option.splits)
  from c v Call_Insert
  have "completed st r (Emplace E (mem st) v (Ptr (buffer_m (data_m v)) i) val) = Some st'"
    by (simp add: Insert_def)
  with wf v g i show ?thesis by (rule well_formed_Emplace)
next
  case (Call_Emplace r i args)
  with p obtain v where v: "vectors st r = Some v" and g: "unat (size_m v) < 2 ^ 63"
    and i: "i \<le> unat (size_m v)"
    by (auto simp: can_grow_def split: option.splits)
  from c v Call_Emplace
  have "completed st r (Emplace E (mem st) v (Ptr (buffer_m (data_m v)) i) args) = Some st'"
    by simp
  with wf v g i show ?thesis by (rule well_formed_Emplace)
next
  case (Call_Erase r i)
  with p obtain v where v: "vectors st r = Some v" and i: "i < unat (size_m v)"
    by (auto split: option.splits)
  from well_formed_holdsD[OF wf v] obtain xs where h: "holds (mem st) v xs" ..
  from i holds_lengthD[OF h] have "i < length xs" by simp
  from Erase_holds[OF h this, of E] obtain m' v' where
    e: "Erase E (mem st) v (Ptr (buffer_m (data_m v)) i) =
        Inr ((m', v'), Ptr (buffer_m (data_m v')) i)"
    and h': "holds m' v' (take i xs @ drop (Suc i) xs)"
    and d: "data_m v' = data_m v" and f: "frame (buffer_m (data_m v)) (mem st) m'" by blast
  from c e v Call_Erase have "st' = put st r (m', v')" by simp
  with well_formed_step[OF wf v h' f] d show ?thesis by simp
qed

lemma exec_well_formed:
  "well_formed st \<Longrightarrow> exec E cs st = Ends st' \<Longrightarrow> well_formed st'"
proof (induction cs arbitrary: st)
  case Nil
  then show ?case by simp
next
  case (Cons c cs)
  from Cons.prems(2) obtain st1 where p: "precondition st c" and c: "call E st c = Some st1"
    and r: "exec E cs st1 = Ends st'"
    by (auto split: if_splits option.splits)
  from call_well_formed[OF Cons.prems(1) p c] have "well_formed st1" .
  from Cons.IH[OF this r] show ?case .
qed






lemma exec_size_within_capacity:
  assumes "exec E cs initial_state = Ends st" "vectors st r = Some v"
  shows "0 \<le> size_m v \<and> size_m v \<le> capacity_m (data_m v)"
proof -
  from exec_well_formed[OF well_formed_initial assms(1)] have "well_formed st" .
  from well_formed_holdsD[OF this assms(2)] obtain xs where "holds (mem st) v xs" ..
  then show ?thesis by (simp add: holds_def)
qed

section \<open>Self-assignment\<close>

text \<open>
  Claim C10. Copy-assigning a vector to itself, or move-assigning it to itself, leaves it
  unchanged: same size, same capacity, same elements in the same order. Both operators
  return at once when \<^verbatim>\<open>this == &rhs\<close>, so the whole state is the one before.
\<close>

theorem self_assignment_unchanged:
  "Vector_copy_assign st v v = Return st v \<and> Vector_move_assign st v v = Return st v"
  by (simp add: Vector_copy_assign_def Vector_move_assign_def)

section \<open>Move-assignment of RawMemory\<close>

text \<open>
  Claim C4. Move-assignment between two distinct RawMemory objects releases the
  destination's block, transfers the source's address and capacity, empties the source and
  returns a reference to the destination. On the code the operator cannot be called: its
  body applies \<^verbatim>\<open>~\<close> to a temporary \<^verbatim>\<open>RawMemory()\<close> at line 33, the class declares
  neither \<^verbatim>\<open>operator~\<close> nor a conversion function, and so a program that assigns one
  RawMemory to another is ill formed at that line.
\<close>

theorem RawMemory_move_assign_ill_formed:
  "RawMemory_move_assign = Ill_formed 33"
  by (simp add: RawMemory_move_assign_def RawMemory_members_def)

section \<open>Move-assignment of vectors\<close>

text \<open>
  Claim C3. After \<^verbatim>\<open>v = std::move(w)\<close> on distinct vectors, \<open>v\<close> has the size and
  the elements \<open>w\<close> had, also when \<open>w\<close> was the shorter one and fits the capacity of
  \<open>v\<close>. On the code that last case swaps first and then calls
  \<^verbatim>\<open>destroy_n(data_ + rhs.size_, size_ - rhs.size_)\<close> with the exchanged sizes: for
  \<open>v = [1, 2, 3]\<close> and \<open>w = [7]\<close> the count is \<open>1 - 3\<close> in \<^verbatim>\<open>size_t\<close> and the first
  slot destroyed is slot 3 of a block of one slot.
\<close>

theorem move_assign_shrinking_undefined:
  "holds \<lparr>blocks = [0 \<mapsto> [Obj 1, Obj 2, Obj 3], 1 \<mapsto> [Obj (7::int)]], brk = 2, ctor_log = []\<rparr>
      \<lparr>data_m = \<lparr>buffer_m = Some 0, capacity_m = 3\<rparr>, size_m = 3\<rparr> [1, 2, 3]
   \<and> holds \<lparr>blocks = [0 \<mapsto> [Obj 1, Obj 2, Obj 3], 1 \<mapsto> [Obj (7::int)]], brk = 2, ctor_log = []\<rparr>
      \<lparr>data_m = \<lparr>buffer_m = Some 1, capacity_m = 1\<rparr>, size_m = 1\<rparr> [7]
   \<and> Vector_move_assign
     \<lparr>mem = \<lparr>blocks = [0 \<mapsto> [Obj 1, Obj 2, Obj 3], 1 \<mapsto> [Obj (7::int)]], brk = 2, ctor_log = []\<rparr>,
      vectors = [0 \<mapsto> \<lparr>data_m = \<lparr>buffer_m = Some 0, capacity_m = 3\<rparr>, size_m = 3\<rparr>,
                 1 \<mapsto> \<lparr>data_m = \<lparr>buffer_m = Some 1, capacity_m = 1\<rparr>, size_m = 1\<rparr>]\<rparr> 0 1
   = Fault Undefined_Behaviour"
proof -
  let ?m = "\<lparr>blocks = [0 \<mapsto> [Obj 1, Obj 2, Obj 3], 1 \<mapsto> [Obj (7::int)]], brk = 2, ctor_log = []\<rparr>"
  have "destroy_n ?m (Ptr (Some 1) 3) (unat (1 - 3 :: size_t)) = Inl Undefined_Behaviour"
    by (rule destroy_n_first_fails) (simp_all add: object_defs)
  then show ?thesis
    by (simp add: Vector_move_assign_def raw_defs vector_defs holds_def block_of_def)
qed

section \<open>A throwing constructor during a growing append\<close>

text \<open>
  Claim C2. When the vector is full and constructing the new element throws, the vector is
  unchanged and the exception reaches the caller. On the code \<^verbatim>\<open>new_vector.size_\<close> is
  set to the old size before the element is constructed, so unwinding runs
  \<^verbatim>\<open>~Vector\<close> on \<^verbatim>\<open>new_vector\<close>, which destroys that many slots of the fresh block:
  none of them holds an object. For the full vector \<open>[1]\<close> no exception comes out.
\<close>

theorem EmplaceBack_throw_undefined:
  "holds \<lparr>blocks = [0 \<mapsto> [Obj (1::int)]], brk = 1, ctor_log = []\<rparr>
      \<lparr>data_m = \<lparr>buffer_m = Some 0, capacity_m = 1\<rparr>, size_m = 1\<rparr> [1]
   \<and> EmplaceBack int_type \<lparr>blocks = [0 \<mapsto> [Obj (1::int)]], brk = 1, ctor_log = []\<rparr>
      \<lparr>data_m = \<lparr>buffer_m = Some 0, capacity_m = 1\<rparr>, size_m = 1\<rparr> Throwing
   = Fault Undefined_Behaviour"
  by (simp add: EmplaceBack_def Reserve_def raw_defs vector_defs object_defs holds_def
      block_of_def int_type_def loops_One)


section \<open>Sequences of PushBack and PopBack\<close>

text \<open>
  Claim C5. For every interleaved sequence of PushBack and PopBack from the empty vector,
  with PopBack applied only to a vector of positive size, the final size is the number of
  pushes minus the number of pops, and the live elements in index order are the pushed
  values not popped, in the order they were pushed. The sequence is shorter than \<open>2\<^sup>6\<^sup>3\<close>
  operations, so that doubling a capacity does not wrap in \<^verbatim>\<open>size_t\<close>; every pushed
  value is constructed without throwing.
\<close>

theorem push_pop_sequence:
  assumes "pops_allowed 0 ops" "length ops < 2 ^ 63"
  shows "\<exists>m v. apply_ops E ops (m0, Vector_ctor) = Some (m, v) \<and>
     unat (size_m v) = pushes ops - pops ops \<and> holds m v (survivors [] ops)"
proof -
  from apply_ops_holds[OF holds_Vector_ctor, where ops=ops and m=m0 and E=E] assms obtain m v where
    a: "apply_ops E ops (m0, Vector_ctor) = Some (m, v)" and h: "holds m v (survivors [] ops)"
    and l: "length (survivors [] ops) + pops ops = pushes ops" by auto
  from l have "length (survivors [] ops) = pushes ops - pops ops" by simp
  with a h show ?thesis by (auto simp: holds_lengthD)
qed

theorem push_pop_sequence_witness:
  "pops_allowed 0 [Push 1, Push 2, Pop, Push (3::int)] \<and>
   length [Push 1, Push 2, Pop, Push (3::int)] < 2 ^ 63 \<and>
   (\<exists>m v. apply_ops int_type [Push 1, Push 2, Pop, Push 3] (empty_memory, Vector_ctor) = Some (m, v) \<and>
      unat (size_m v) = pushes [Push 1, Push 2, Pop, Push (3::int)] - pops [Push 1, Push 2, Pop, Push (3::int)] \<and>
      holds m v (survivors [] [Push 1, Push 2, Pop, Push 3])) \<and>
   pushes [Push 1, Push 2, Pop, Push (3::int)] - pops [Push 1, Push 2, Pop, Push (3::int)] = 2 \<and>
   survivors [] [Push 1, Push 2, Pop, Push (3::int)] = [1, 3]"
  using push_pop_sequence[where ops="[Push 1, Push 2, Pop, Push (3::int)]" and E=int_type
      and ?m0.0=empty_memory]
  by simp

section \<open>Reserve and the appends that follow\<close>



section \<open>What an append returns\<close>

text \<open>
  Claim C8, as stated: PushBack and EmplaceBack each append one element constructed from
  the arguments and return a reference to it. EmplaceBack does; PushBack is declared
  \<^verbatim>\<open>void\<close> and returns nothing. On the empty vector and the value 7 both leave the same
  vector, and only EmplaceBack hands back a reference.
\<close>

theorem PushBack_returns_void:
  "EmplaceBack int_type empty_memory Vector_ctor (Value 7) =
     Return (\<lparr>blocks = [0 \<mapsto> [Obj 7]], brk = 1, ctor_log = [Constructed 7]\<rparr>,
             \<lparr>data_m = \<lparr>buffer_m = Some 0, capacity_m = 1\<rparr>, size_m = 1\<rparr>) (Reference (Ptr (Some 0) 0))
   \<and> PushBack int_type empty_memory Vector_ctor (Value 7) =
     Return (\<lparr>blocks = [0 \<mapsto> [Obj 7]], brk = 1, ctor_log = [Constructed 7]\<rparr>,
             \<lparr>data_m = \<lparr>buffer_m = Some 0, capacity_m = 1\<rparr>, size_m = 1\<rparr>) Void"
  by (simp add: PushBack_def EmplaceBack_def Reserve_def raw_defs vector_defs object_defs
      int_type_def empty_memory_def)

text \<open>
  Claim C8, amended. On a well-formed vector of fewer than \<open>2\<^sup>6\<^sup>3\<close> elements, with
  arguments from which the element is constructed without throwing, EmplaceBack appends
  exactly that element and returns a reference to it (the slot at the old size of the
  buffer it leaves, which then reads as the new element); PushBack appends the same
  element, leaving the same state, and returns nothing.
\<close>

theorem emplace_back_returns_reference:
  assumes "holds m v xs" "unat (size_m v) < 2 ^ 63"
  shows "\<exists>m' v'. EmplaceBack E m v (Value x) =
        Return (m', v') (Reference (Ptr (buffer_m (data_m v')) (length xs))) \<and>
     PushBack E m v (Value x) = Return (m', v') Void \<and>
     holds m' v' (xs @ [x]) \<and>
     read_object m' (Ptr (buffer_m (data_m v')) (length xs)) = Inr x"
proof -
  from EmplaceBack_holds[OF assms, of E x] obtain m' v' where
    e: "EmplaceBack E m v (Value x) =
        Return (m', v') (Reference (Ptr (buffer_m (data_m v')) (length xs)))"
    and h: "holds m' v' (xs @ [x])" by blast
  from holds_read_object[OF h, of "length xs"]
  have "read_object m' (Ptr (buffer_m (data_m v')) (length xs)) = Inr x" by simp
  with e h PushBack_EmplaceBack[OF e] show ?thesis by blast
qed

theorem emplace_back_returns_reference_witness:
  "holds \<lparr>blocks = [0 \<mapsto> [Obj (1::int)]], brk = 1, ctor_log = []\<rparr>
      \<lparr>data_m = \<lparr>buffer_m = Some 0, capacity_m = 1\<rparr>, size_m = 1\<rparr> [1] \<and>
   unat (size_m \<lparr>data_m = \<lparr>buffer_m = Some 0, capacity_m = 1\<rparr>, size_m = 1\<rparr>) < 2 ^ 63 \<and>
   (\<exists>m' v'. EmplaceBack int_type \<lparr>blocks = [0 \<mapsto> [Obj (1::int)]], brk = 1, ctor_log = []\<rparr>
        \<lparr>data_m = \<lparr>buffer_m = Some 0, capacity_m = 1\<rparr>, size_m = 1\<rparr> (Value 5) =
        Return (m', v') (Reference (Ptr (buffer_m (data_m v')) (length [1::int]))) \<and>
      PushBack int_type \<lparr>blocks = [0 \<mapsto> [Obj (1::int)]], brk = 1, ctor_log = []\<rparr>
        \<lparr>data_m = \<lparr>buffer_m = Some 0, capacity_m = 1\<rparr>, size_m = 1\<rparr> (Value 5) =
        Return (m', v') Void \<and>
      holds m' v' ([1] @ [5]) \<and>
      read_object m' (Ptr (buffer_m (data_m v')) (length [1::int])) = Inr 5)"
proof -
  have h: "holds \<lparr>blocks = [0 \<mapsto> [Obj (1::int)]], brk = 1, ctor_log = []\<rparr>
      \<lparr>data_m = \<lparr>buffer_m = Some 0, capacity_m = 1\<rparr>, size_m = 1\<rparr> [1]"
    by (simp add: holds_def block_of_def)
  have b: "unat (size_m \<lparr>data_m = \<lparr>buffer_m = Some 0, capacity_m = 1\<rparr>, size_m = 1\<rparr>) < 2 ^ 63"
    by simp
  from h b emplace_back_returns_reference[OF h b, where E=int_type and x=5]
  show ?thesis by simp
qed


section \<open>Insert followed by Erase\<close>

text \<open>
  Claim C6. For every well-formed vector of fewer than \<open>2\<^sup>6\<^sup>3\<close> elements, every position
  from \<open>begin\<close> to \<open>end\<close> (the offset \<open>i\<close> runs from 0 to the size, included) and every
  value, Insert at that position (the value being constructed without throwing) returns
  an iterator, and Erase on that iterator leaves a vector holding the original elements
  in the original order, with the original size. The capacity may have grown.
\<close>

theorem insert_erase_roundtrip:
  assumes "holds m v xs" "i \<le> length xs" "length xs < 2 ^ 63"
  shows "\<exists>m1 v1 it m2 v2 it'.
     Insert E m v (Ptr (buffer_m (data_m v)) i) (Value x) = Return (m1, v1) it \<and>
     Erase E m1 v1 it = Inr ((m2, v2), it') \<and>
     holds m2 v2 xs \<and> size_m v2 = size_m v"
proof -
  let ?ys = "take i xs @ x # drop i xs"
  from Emplace_holds[OF assms, of E x] obtain m1 v1 where
    e: "Emplace E m v (Ptr (buffer_m (data_m v)) i) (Value x) =
        Return (m1, v1) (Ptr (buffer_m (data_m v1)) i)"
    and h1: "holds m1 v1 ?ys" and s1: "size_m v1 = size_m v + 1" by blast
  have i': "i < length ?ys" using assms(2) by simp
  from Erase_holds[OF h1 i', of E] obtain m2 v2 where
    r: "Erase E m1 v1 (Ptr (buffer_m (data_m v1)) i) = Inr ((m2, v2), Ptr (buffer_m (data_m v2)) i)"
    and h2: "holds m2 v2 (take i ?ys @ drop (Suc i) ?ys)" and s2: "size_m v2 = size_m v1 - 1"
    by blast
  have "take i ?ys @ drop (Suc i) ?ys = xs" using assms(2) by simp
  with h2 have "holds m2 v2 xs" by simp
  moreover have "size_m v2 = size_m v" using s1 s2 by simp
  ultimately show ?thesis using e r by (auto simp: Insert_def)
qed

theorem insert_erase_roundtrip_witness:
  "holds \<lparr>blocks = [0 \<mapsto> [Obj (1::int), Obj 2, Obj 3, Raw]], brk = 1, ctor_log = []\<rparr>
     \<lparr>data_m = \<lparr>buffer_m = Some 0, capacity_m = 4\<rparr>, size_m = 3\<rparr> [1, 2, 3] \<and>
   1 \<le> length [1, 2, 3 :: int] \<and> length [1, 2, 3 :: int] < 2 ^ 63 \<and>
   (\<exists>m1 v1 it m2 v2 it'.
      Insert int_type \<lparr>blocks = [0 \<mapsto> [Obj (1::int), Obj 2, Obj 3, Raw]], brk = 1, ctor_log = []\<rparr>
        \<lparr>data_m = \<lparr>buffer_m = Some 0, capacity_m = 4\<rparr>, size_m = 3\<rparr>
        (Ptr (buffer_m (data_m \<lparr>data_m = \<lparr>buffer_m = Some 0, capacity_m = 4\<rparr>, size_m = 3\<rparr>)) 1)
        (Value 9) = Return (m1, v1) it \<and>
      Erase int_type m1 v1 it = Inr ((m2, v2), it') \<and>
      holds m2 v2 [1, 2, 3] \<and>
      size_m v2 = size_m \<lparr>data_m = \<lparr>buffer_m = Some 0, capacity_m = 4\<rparr>, size_m = 3\<rparr>)"
proof -
  have h: "holds \<lparr>blocks = [0 \<mapsto> [Obj (1::int), Obj 2, Obj 3, Raw]], brk = 1, ctor_log = []\<rparr>
     \<lparr>data_m = \<lparr>buffer_m = Some 0, capacity_m = 4\<rparr>, size_m = 3\<rparr> [1, 2, 3]"
    by (simp add: holds_def block_of_def)
  from h insert_erase_roundtrip[OF h, where i=1 and E=int_type and x=9]
  show ?thesis by simp
qed

section \<open>Relocation moves or copies\<close>



section \<open>The size never exceeds the capacity\<close>



end
